theory Spec2Isabelle
  imports Complex_Main "HOL-Library.Multiset"
begin

section \<open>The shared annotation table\<close>

text \<open>
  The annotation table of the \<open>Clipper\<close> class is a pandas data frame: a row index
  \<open>range(length)\<close> and an ordered list of named columns. A cell is a missing value
  (\<open>np.nan\<close>), a float or a string. Exceptions of the Python code are values of
  \<open>error\<close>.
\<close>

datatype cell = NaN | Num real | Str string

datatype error = KeyError | ValueError | IndexError | TypeError | ZeroDivisionError

record frame =
  nrows :: nat
  cols :: "(string \<times> cell list) list"

definition columns :: "frame \<Rightarrow> string list" where
  "columns df = map fst (cols df)"

text \<open>\<open>df[name]\<close>: the column of that name, \<open>KeyError\<close> when there is none.\<close>

definition get_col :: "frame \<Rightarrow> string \<Rightarrow> error + cell list" where
  "get_col df name = (case map_of (cols df) name of None \<Rightarrow> Inl KeyError | Some c \<Rightarrow> Inr c)"

text \<open>\<open>df[name] = values\<close>: replaces the column in place when the name exists, appends
  it as the last column otherwise.\<close>

fun upsert :: "string \<Rightarrow> cell list \<Rightarrow> (string \<times> cell list) list \<Rightarrow> (string \<times> cell list) list" where
  "upsert name c [] = [(name, c)]"
| "upsert name c ((n, d) # cs) = (if n = name then (n, c) # cs else (n, d) # upsert name c cs)"

definition set_col :: "string \<Rightarrow> cell list \<Rightarrow> frame \<Rightarrow> frame" where
  "set_col name c df = df\<lparr>cols := upsert name c (cols df)\<rparr>"

text \<open>\<open>df[name] = np.nan\<close>: the scalar is broadcast over the row index.\<close>

definition set_scalar :: "string \<Rightarrow> cell \<Rightarrow> frame \<Rightarrow> frame" where
  "set_scalar name v df = set_col name (replicate (nrows df) v) df"

section \<open>Exopeptidase detector\<close>

text \<open>Python slices and string tests: \<open>seq[-5:]\<close> and \<open>str.endswith\<close>;
  \<open>compare[1:]\<close> and \<open>compare[2:]\<close> are \<open>drop 1\<close> and \<open>drop 2\<close>.\<close>

definition last5 :: "string \<Rightarrow> string" where
  "last5 seq = drop (length seq - 5) seq"

definition endswith :: "string \<Rightarrow> string \<Rightarrow> bool" where
  "endswith s suf = (length suf \<le> length s \<and> drop (length s - length suf) s = suf)"

text \<open>\<open>for i in same_seq_indices: self.annot.loc[i, "exopeptidase"] = lab\<close>, where
  \<open>same_seq_indices\<close> are the rows whose \<open>query_sequence\<close> equals \<open>pep\<close>. The
  \<open>query_sequence\<close> column \<open>qs\<close> is never written; the \<open>exopeptidase\<close> column
  \<open>exo\<close> is the one threaded through the loops.\<close>

definition label_rows :: "cell list \<Rightarrow> string \<Rightarrow> string \<Rightarrow> cell list \<Rightarrow> cell list" where
  "label_rows qs pep lab exo = map (\<lambda>(q, e). if q = Str pep then Str lab else e) (zip qs exo)"

text \<open>The inner loop over \<open>matching_peptides\<close>. Its state is \<open>cleared\<close>, \<open>compare\<close>,
  \<open>rag_flag\<close>, \<open>lpep\<close> and the label column.\<close>

fun walk :: "cell list \<Rightarrow> string list \<Rightarrow> string set \<times> string \<times> bool \<times> nat \<times> cell list
    \<Rightarrow> string set \<times> string \<times> bool \<times> nat \<times> cell list" where
  "walk qs [] st = st"
| "walk qs (pep # peps) (cleared, compare, rag_flag, lpep, exo) =
    (if pep = drop 1 compare then
       (if rag_flag \<and> int (length pep) = int lpep - 1 then
          walk qs peps (insert pep cleared, pep, rag_flag, lpep,
            label_rows qs pep ''Dipeptidase_seed_Aminopeptidase_activity'' exo)
        else
          walk qs peps (insert pep cleared, pep, False, lpep,
            label_rows qs pep ''Aminopeptidase_activity'' exo))
     else if pep = drop 2 compare then
       walk qs peps (insert pep cleared, pep, True, length pep,
         label_rows qs pep ''Dipeptidase_activity'' exo)
     else walk qs peps (cleared, compare, rag_flag, lpep, exo))"

text \<open>\<open>sequences[sequences.str.endswith(char_match)]\<close>: every entry of the sorted
  series that ends with the anchor, the scanned sequence itself included.\<close>

definition matching_peptides :: "string list \<Rightarrow> string \<Rightarrow> string list" where
  "matching_peptides sequences seq = filter (\<lambda>p. endswith p (last5 seq)) sequences"

text \<open>The body of the outer loop for a sequence that is not yet cleared.\<close>

fun scan :: "cell list \<Rightarrow> string list \<Rightarrow> string \<Rightarrow> string set \<times> cell list
    \<Rightarrow> string set \<times> cell list" where
  "scan qs sequences seq (cleared, exo) =
    (if length (matching_peptides sequences seq) > 1 then
       (case walk qs (matching_peptides sequences seq)
               (insert seq cleared, seq, False, length seq, exo) of
          (cleared', _, _, _, exo') \<Rightarrow> (cleared', exo'))
     else (insert seq cleared, exo))"

fun outer :: "cell list \<Rightarrow> string list \<Rightarrow> string list \<Rightarrow> string set \<times> cell list
    \<Rightarrow> string set \<times> cell list" where
  "outer qs sequences [] st = st"
| "outer qs sequences (seq # rest) (cleared, exo) =
    (if seq \<notin> cleared then outer qs sequences rest (scan qs sequences seq (cleared, exo))
     else outer qs sequences rest (cleared, exo))"

text \<open>\<open>dropna()\<close> followed by \<open>sort_values(key=len, kind="mergesort",
  ascending=False)\<close>: a stable sort by descending length, rows of equal length keep
  their row order.\<close>

definition dropna_str :: "cell list \<Rightarrow> string list" where
  "dropna_str qs = concat (map (\<lambda>c. case c of Str s \<Rightarrow> [s] | _ \<Rightarrow> []) qs)"

definition sorted_sequences :: "cell list \<Rightarrow> string list" where
  "sorted_sequences qs = sort_key (\<lambda>s. - int (length s)) (dropna_str qs)"

definition exopeptidase_col :: "cell list \<Rightarrow> cell list" where
  "exopeptidase_col qs =
     snd (outer qs (sorted_sequences qs) (sorted_sequences qs) ({}, replicate (length qs) NaN))"

text \<open>The method \<open>exopeptidase\<close> on the table: the label column is initialised
  with \<open>np.nan\<close>, the \<open>query_sequence\<close> column is read (strings and missing values; with
  a number among the strings the boolean indexing by \<open>str.endswith\<close> raises
  \<open>ValueError\<close>), and the loops fill the label column. Every column of a data frame has one cell per row of the index, so the
  initial label column has as many cells as \<open>query_sequence\<close>, and writing the final
  column replaces the initial one.\<close>

definition exopeptidase :: "frame \<Rightarrow> error + frame" where
  "exopeptidase annot =
     (case get_col (set_scalar ''exopeptidase'' NaN annot) ''query_sequence'' of
        Inl e \<Rightarrow> Inl e
      | Inr qs \<Rightarrow>
          if list_ex (\<lambda>c. case c of Num _ \<Rightarrow> True | _ \<Rightarrow> False) qs then Inl ValueError
          else Inr (set_col ''exopeptidase'' (exopeptidase_col qs) annot))"

section \<open>The numerical libraries\<close>

text \<open>
  The code calls pandas, numpy, scipy and statsmodels for the numerics. They are not
  part of the repository, so the model takes them as one parameter: the selection of a
  condition's channels among the quantification columns, the row-wise mean and
  standard deviation, float division and logarithms (IEEE semantics, missing values
  propagate), the hypothesis tests (which return the p-value column), the
  multiple-testing procedure and the histogram distribution with its CDF.
\<close>

record ('c, 'g) library =
  select_columns :: "string list \<Rightarrow> 'c"
  mean_axis1 :: "'c \<Rightarrow> cell list"
  std_axis1 :: "'c \<Rightarrow> cell list"
  np_divide :: "cell \<Rightarrow> cell \<Rightarrow> cell"
  np_log2 :: "cell \<Rightarrow> cell"
  np_log10 :: "cell \<Rightarrow> cell"
  log2_values :: "'c \<Rightarrow> 'g"
  ttest_ind :: "'g \<Rightarrow> 'g \<Rightarrow> cell list"
  f_oneway :: "'g \<Rightarrow> 'g \<Rightarrow> cell list"
  multipletests :: "cell list \<Rightarrow> real \<Rightarrow> string \<Rightarrow> error + cell list"
  rv_histogram :: "cell list \<Rightarrow> error + (cell \<Rightarrow> real option)"

text \<open>\<open>itertools.permutations(xs, 2)\<close> and \<open>itertools.combinations(xs, 2)\<close>, in the
  order Python yields them. The conditions are a dictionary, modelled as the list of its
  items in insertion order; the loops below run over the items, so that
  \<open>self.conditions[pair[0]]\<close> is the channel list stored with the key.\<close>

definition permutations2 :: "'a list \<Rightarrow> ('a \<times> 'a) list" where
  "permutations2 xs =
     concat (map (\<lambda>i. map (\<lambda>j. (xs ! i, xs ! j)) (filter (\<lambda>j. j \<noteq> i) [0..<length xs]))
                 [0..<length xs])"

fun combinations2 :: "'a list \<Rightarrow> ('a \<times> 'a) list" where
  "combinations2 [] = []"
| "combinations2 (x # xs) = map (Pair x) xs @ combinations2 xs"

fun join :: "string \<Rightarrow> string list \<Rightarrow> string" where
  "join sep [] = []"
| "join sep [x] = x"
| "join sep (x # y # ys) = x @ sep @ join sep (y # ys)"

section \<open>Condition statistics\<close>

definition default_conditions :: "(string \<times> string list) list" where
  "default_conditions =
     [(''all'', [''126'', ''127'', ''128'', ''129'', ''130'', ''131'', ''132'', ''133'', ''134''])]"

definition calc_stats :: "('c, 'g) library \<Rightarrow> 'c \<Rightarrow> cell list \<times> cell list \<times> cell list" where
  "calc_stats L cs =
     (let mean = mean_axis1 L cs; std = std_axis1 L cs
      in (mean, std, map2 (np_divide L) std mean))"

definition fold_name :: "string \<Rightarrow> string \<Rightarrow> string" where
  "fold_name a b = ''Fold_change: '' @ a @ ''/'' @ b"

definition log2_fold_name :: "string \<Rightarrow> string \<Rightarrow> string" where
  "log2_fold_name a b = ''Log2_fold_change: '' @ a @ ''/'' @ b"

definition generate_condition_columns ::
  "('c, 'g) library \<Rightarrow> string \<times> string \<Rightarrow> cell list \<Rightarrow> cell list
     \<Rightarrow> string \<times> string \<times> cell list \<times> cell list" where
  "generate_condition_columns L pair mean0 mean1 =
     (let fold_change = map2 (np_divide L) mean0 mean1
      in (fold_name (fst pair) (snd pair), log2_fold_name (fst pair) (snd pair),
          fold_change, map (np_log2 L) fold_change))"

text \<open>The first loop: mean, deviation and CV of every condition.\<close>

fun condition_columns :: "('c, 'g) library \<Rightarrow> (string \<times> string list) list \<Rightarrow> frame \<Rightarrow> frame" where
  "condition_columns L [] annot = annot"
| "condition_columns L ((condition, channels) # rest) annot =
     (case calc_stats L (select_columns L channels) of
        (mean, std, cv) \<Rightarrow>
          condition_columns L rest
            (set_col (condition @ ''_CV'') cv
              (set_col (condition @ ''_deviation'') std
                (set_col (condition @ ''_mean'') mean annot))))"

text \<open>The second loop: one fold change and its base-2 logarithm per ordered pair.\<close>

fun fold_columns ::
  "('c, 'g) library \<Rightarrow> ((string \<times> string list) \<times> (string \<times> string list)) list \<Rightarrow> frame \<Rightarrow> frame" where
  "fold_columns L [] annot = annot"
| "fold_columns L (((a, channels0), (b, channels1)) # rest) annot =
     (case calc_stats L (select_columns L channels0) of
        (mean0, _, _) \<Rightarrow>
          (case calc_stats L (select_columns L channels1) of
             (mean1, _, _) \<Rightarrow>
               (case generate_condition_columns L (a, b) mean0 mean1 of
                  (column_name, column_log, fold_change, log_fold_change) \<Rightarrow>
                    fold_columns L rest
                      (set_col column_log log_fold_change
                        (set_col column_name fold_change annot)))))"

text \<open>\<open>general_conditions\<close> replaces an empty condition dictionary by the default one,
  so it returns the conditions with the table.\<close>

definition general_conditions ::
  "('c, 'g) library \<Rightarrow> (string \<times> string list) list \<Rightarrow> frame
     \<Rightarrow> (string \<times> string list) list \<times> frame" where
  "general_conditions L conditions0 annot =
     (let conditions = (if conditions0 = [] then default_conditions else conditions0);
          annot1 = condition_columns L conditions annot
      in if length conditions > 1
         then (conditions, fold_columns L (permutations2 conditions) annot1)
         else (conditions, annot1))"

section \<open>Percentile classifier\<close>

definition sig_name :: "string \<Rightarrow> string \<Rightarrow> string" where
  "sig_name a b = ''Fold '' @ a @ ''/'' @ b @ '' significance''"

text \<open>The inner function \<open>classify_fold_change\<close>; the two cutoffs and the distribution
  are its closure variables. A CDF value that is not a number fails both comparisons.\<close>

definition classify_fold_change :: "(cell \<Rightarrow> real option) \<Rightarrow> real \<Rightarrow> real \<Rightarrow> cell \<Rightarrow> cell" where
  "classify_fold_change cdf left_cutoff right_cutoff v =
     (case cdf v of
        None \<Rightarrow> NaN
      | Some cd \<Rightarrow>
          if cd > right_cutoff then Str ''significant high''
          else if cd < left_cutoff then Str ''significant low''
          else NaN)"

text \<open>The rows of the subframe under the \<open>nterm\<close> scope, as a mask over the row index.\<close>

definition nterm_rows :: "string \<Rightarrow> cell list \<Rightarrow> bool list" where
  "nterm_rows column nterm_annot =
     (let is_internal = map (\<lambda>c. c = Str ''Internal'') nterm_annot
      in if endswith column ''low'' then map Not is_internal else is_internal)"

text \<open>\<open>subframe[column].apply(classify_fold_change)\<close>, assigned to the table by row
  index: a row outside the subframe gets a missing value.\<close>

definition significance_column ::
  "(cell \<Rightarrow> real option) \<Rightarrow> real \<Rightarrow> real \<Rightarrow> cell list \<Rightarrow> bool list \<Rightarrow> cell list" where
  "significance_column cdf left_cutoff right_cutoff vals rows =
     map (\<lambda>(v, r). if r then classify_fold_change cdf left_cutoff right_cutoff v else NaN)
         (zip vals rows)"

definition subframe_values :: "cell list \<Rightarrow> bool list \<Rightarrow> cell list" where
  "subframe_values vals rows = map fst (filter snd (zip vals rows))"

definition dropna :: "cell list \<Rightarrow> cell list" where
  "dropna xs = filter (\<lambda>c. c \<noteq> NaN) xs"

definition classify_subframe ::
  "('c, 'g) library \<Rightarrow> real \<Rightarrow> real \<Rightarrow> string \<Rightarrow> string \<Rightarrow> bool list \<Rightarrow> frame \<Rightarrow> error + frame" where
  "classify_subframe L left_cutoff right_cutoff column sig rows annot =
     (case get_col annot column of
        Inl e \<Rightarrow> Inl e
      | Inr vals \<Rightarrow>
          (case rv_histogram L (dropna (subframe_values vals rows)) of
             Inl e \<Rightarrow> Inl e
           | Inr cdf \<Rightarrow>
               Inr (set_col sig (significance_column cdf left_cutoff right_cutoff vals rows) annot)))"

text \<open>One iteration of the loop over the ordered pairs. The state is the table and the
  log.\<close>

fun percentile_pair ::
  "('c, 'g) library \<Rightarrow> string \<Rightarrow> real \<Rightarrow> real \<Rightarrow> string \<times> string \<Rightarrow> frame \<times> string list
     \<Rightarrow> error + frame \<times> string list" where
  "percentile_pair L significance left_cutoff right_cutoff (a, b) (annot0, logged) =
     (let column = fold_name a b;
          annot = set_scalar (sig_name a b) NaN annot0
      in if significance = ''all'' then
           (case classify_subframe L left_cutoff right_cutoff column (sig_name a b)
                   (replicate (nrows annot) True) annot of
              Inl e \<Rightarrow> Inl e | Inr annot' \<Rightarrow> Inr (annot', logged))
         else if significance = ''nterm'' then
           (case get_col annot ''nterm_annot'' of
              Inl e \<Rightarrow> Inl e
            | Inr nterm_annot \<Rightarrow>
                (case classify_subframe L left_cutoff right_cutoff column (sig_name a b)
                        (nterm_rows column nterm_annot) annot of
                   Inl e \<Rightarrow> Inl e | Inr annot' \<Rightarrow> Inr (annot', logged)))
         else Inr (annot,
                logged @ [''Significance invalid argument '' @ significance @ '', skipping'']))"

fun percentile_pairs ::
  "('c, 'g) library \<Rightarrow> string \<Rightarrow> real \<Rightarrow> real \<Rightarrow> (string \<times> string) list \<Rightarrow> frame \<times> string list
     \<Rightarrow> error + frame \<times> string list" where
  "percentile_pairs L significance left_cutoff right_cutoff [] st = Inr st"
| "percentile_pairs L significance left_cutoff right_cutoff (pair # pairs) st =
     (case percentile_pair L significance left_cutoff right_cutoff pair st of
        Inl e \<Rightarrow> Inl e
      | Inr st' \<Rightarrow> percentile_pairs L significance left_cutoff right_cutoff pairs st')"

definition percentile_fold ::
  "('c, 'g) library \<Rightarrow> string \<Rightarrow> real \<Rightarrow> (string \<times> string list) list \<Rightarrow> frame \<times> string list
     \<Rightarrow> error + frame \<times> string list" where
  "percentile_fold L significance percentile conditions st =
     (let left_cutoff = percentile; right_cutoff = 1 - percentile
      in if length conditions > 1
         then percentile_pairs L significance left_cutoff right_cutoff
                (permutations2 (map fst conditions)) st
         else Inr st)"

section \<open>Significance engine\<close>

text \<open>The inner function \<open>perform_test\<close> has five positional parameters: the test, two
  column selections and two column names.\<close>

definition perform_test ::
  "('c, 'g) library \<Rightarrow> ('g \<Rightarrow> 'g \<Rightarrow> cell list) \<Rightarrow> 'c \<Rightarrow> 'c \<Rightarrow> string \<Rightarrow> string \<Rightarrow> frame \<Rightarrow> frame" where
  "perform_test L test_func cols0 cols1 column_name column_log annot =
     (let values0 = log2_values L cols0;
          values1 = log2_values L cols1;
          p_value = test_func values0 values1
      in set_col column_log (map (np_log10 L) p_value) (set_col column_name p_value annot))"

text \<open>The omnibus branch calls \<open>perform_test(test_func, *cols_per_condition, column_name,
  column_log)\<close>: the arguments after the test are bound by position, and Python raises
  \<open>TypeError\<close> when their number is not the four that remain.\<close>

datatype 'c pyarg = Cols 'c | Name string

fun call_perform_test ::
  "('c, 'g) library \<Rightarrow> ('g \<Rightarrow> 'g \<Rightarrow> cell list) \<Rightarrow> 'c pyarg list \<Rightarrow> frame \<Rightarrow> error + frame" where
  "call_perform_test L test_func [Cols cols0, Cols cols1, Name column_name, Name column_log] annot =
     Inr (perform_test L test_func cols0 cols1 column_name column_log annot)"
| "call_perform_test L test_func args annot = Inl TypeError"

fun pairwise_tests ::
  "('c, 'g) library \<Rightarrow> ((string \<times> string list) \<times> (string \<times> string list)) list \<Rightarrow> frame \<Rightarrow> frame" where
  "pairwise_tests L [] annot = annot"
| "pairwise_tests L (((a, channels0), (b, channels1)) # rest) annot =
     pairwise_tests L rest
       (perform_test L (ttest_ind L) (select_columns L channels0) (select_columns L channels1)
          (''Ttest: '' @ a @ ''_'' @ b) (''Log10_ttest: '' @ a @ ''_'' @ b) annot)"

definition condition_statistics ::
  "('c, 'g) library \<Rightarrow> bool \<Rightarrow> (string \<times> string list) list \<Rightarrow> frame \<Rightarrow> error + frame" where
  "condition_statistics L stat_pairwise conditions annot =
     (if stat_pairwise then Inr (pairwise_tests L (combinations2 conditions) annot)
      else if length conditions \<ge> 2 then
        (let test_func = (if length conditions = 2 then ttest_ind L else f_oneway L);
             column_name = (if length conditions = 2 then ''Ttest'' else ''ANOVA'') @ '': ''
                             @ join ''_'' (map fst conditions);
             column_log = ''Log10_'' @ column_name;
             cols_per_condition = map (\<lambda>(cond, channels). select_columns L channels) conditions
         in call_perform_test L test_func
              (map Cols cols_per_condition @ [Name column_name, Name column_log]) annot)
      else Inr annot)"

section \<open>Multiple-testing corrector\<close>

text \<open>The two settings the constructor fixes.\<close>

definition multiple_testing :: string where
  "multiple_testing = ''fdr_bh''"

definition alpha :: real where
  "alpha = 5 / 100"

text \<open>\<open>np.isnan\<close> is defined on float arrays; an array holding a string is rejected.\<close>

definition np_isnan :: "cell list \<Rightarrow> error + bool list" where
  "np_isnan xs =
     (if list_ex (\<lambda>c. case c of Str _ \<Rightarrow> True | _ \<Rightarrow> False) xs then Inl TypeError
      else Inr (map (\<lambda>c. c = NaN) xs))"

text \<open>\<open>a[mask] = vs\<close>: the values are written, in order, at the positions where the mask
  holds. numpy needs one value per such position, or a single value that it broadcasts,
  and raises \<open>ValueError\<close> otherwise.\<close>

fun put_mask :: "cell list \<Rightarrow> bool list \<Rightarrow> cell list \<Rightarrow> cell list" where
  "put_mask (x # xs) (m # ms) vs =
     (if m then (case vs of [] \<Rightarrow> x # put_mask xs ms [] | v # vs' \<Rightarrow> v # put_mask xs ms vs')
      else x # put_mask xs ms vs)"
| "put_mask xs ms vs = xs"

definition mask_assign :: "cell list \<Rightarrow> bool list \<Rightarrow> cell list \<Rightarrow> error + cell list" where
  "mask_assign a msk vs =
     (if length vs = length (filter id msk) then Inr (put_mask a msk vs)
      else if length vs = 1 then Inr (map (\<lambda>(x, m). if m then hd vs else x) (zip a msk))
      else Inl ValueError)"

text \<open>The first half of \<open>perform_correction\<close>: the corrected p-value array.\<close>

definition corrected_pvals :: "('c, 'g) library \<Rightarrow> cell list \<Rightarrow> error + cell list" where
  "corrected_pvals L pvals =
     (case np_isnan pvals of
        Inl e \<Rightarrow> Inl e
      | Inr isnan \<Rightarrow>
          (let not_nan = map Not isnan;
               pvals_no_nan = map fst (filter snd (zip pvals not_nan))
           in case multipletests L pvals_no_nan alpha multiple_testing of
                Inl e \<Rightarrow> Inl e
              | Inr corrected_pvals_no_nan \<Rightarrow>
                  mask_assign (replicate (length pvals) NaN) not_nan corrected_pvals_no_nan))"

text \<open>\<open>columns.get_loc(name)\<close> and \<open>DataFrame.insert(loc, name, values)\<close>.\<close>

fun index_of :: "string \<Rightarrow> string list \<Rightarrow> nat option" where
  "index_of name [] = None"
| "index_of name (n # ns) = (if n = name then Some 0 else map_option Suc (index_of name ns))"

definition get_loc :: "frame \<Rightarrow> string \<Rightarrow> error + nat" where
  "get_loc df name = (case index_of name (columns df) of None \<Rightarrow> Inl KeyError | Some i \<Rightarrow> Inr i)"

definition insert_col :: "nat \<Rightarrow> string \<Rightarrow> cell list \<Rightarrow> frame \<Rightarrow> error + frame" where
  "insert_col loc name c df =
     (if name \<in> set (columns df) then Inl ValueError
      else if loc > length (cols df) then Inl IndexError
      else Inr (df\<lparr>cols := take loc (cols df) @ [(name, c)] @ drop loc (cols df)\<rparr>))"

definition perform_correction ::
  "('c, 'g) library \<Rightarrow> cell list \<Rightarrow> string \<Rightarrow> string \<Rightarrow> string \<Rightarrow> frame \<Rightarrow> error + frame" where
  "perform_correction L pvals column_name column_log original_column_name annot =
     (case corrected_pvals L pvals of
        Inl e \<Rightarrow> Inl e
      | Inr corrected \<Rightarrow>
          (case get_loc annot original_column_name of
             Inl e \<Rightarrow> Inl e
           | Inr original_column_idx \<Rightarrow>
               (case insert_col (original_column_idx + 2) column_name corrected annot of
                  Inl e \<Rightarrow> Inl e
                | Inr annot' \<Rightarrow>
                    insert_col (original_column_idx + 3) column_log
                      (map (np_log10 L) corrected) annot')))"

fun pairwise_corrections ::
  "('c, 'g) library \<Rightarrow> (string \<times> string) list \<Rightarrow> frame \<Rightarrow> error + frame" where
  "pairwise_corrections L [] annot = Inr annot"
| "pairwise_corrections L ((a, b) # rest) annot =
     (let column_name = ''Corrected Ttest: '' @ a @ ''_'' @ b;
          column_log = ''Log10_'' @ column_name;
          original_column_name = ''Ttest: '' @ a @ ''_'' @ b
      in case get_col annot original_column_name of
           Inl e \<Rightarrow> Inl e
         | Inr pvals \<Rightarrow>
             (case perform_correction L pvals column_name column_log original_column_name annot of
                Inl e \<Rightarrow> Inl e
              | Inr annot' \<Rightarrow> pairwise_corrections L rest annot'))"

definition correct_multiple_testing ::
  "('c, 'g) library \<Rightarrow> bool \<Rightarrow> (string \<times> string list) list \<Rightarrow> frame \<Rightarrow> error + frame" where
  "correct_multiple_testing L stat_pairwise conditions annot =
     (if multiple_testing = [] \<or> length conditions < 2 then Inr annot
      else if stat_pairwise then pairwise_corrections L (combinations2 (map fst conditions)) annot
      else
        (let col_stat = (if length conditions = 2 then ''Ttest'' else ''ANOVA'');
             column_name = ''Corrected '' @ col_stat @ '': '' @ join ''_'' (map fst conditions);
             column_log = ''Log10_'' @ column_name;
             original_column_name = col_stat @ '': '' @ join ''_'' (map fst conditions)
         in case get_col annot original_column_name of
              Inl e \<Rightarrow> Inl e
            | Inr pvals \<Rightarrow>
                perform_correction L pvals column_name column_log original_column_name annot))"

text \<open>
  Both branches of \<open>correct_multiple_testing\<close> do the same for each tested group: read the
  group's p-value column and call \<open>perform_correction\<close> with the names
  \<open>Corrected \<close> + original and \<open>Log10_\<close> + corrected. \<open>tested_groups\<close> lists the original
  column names in the order of the run and \<open>correct_groups\<close> is that loop; they are used to
  state what the method does to the table for all groups at once
  (\<open>correct_multiple_testing_groups\<close> below shows they are the method).
\<close>

definition tested_groups :: "bool \<Rightarrow> (string \<times> string list) list \<Rightarrow> string list" where
  "tested_groups stat_pairwise conditions =
     (if stat_pairwise
      then map (\<lambda>(a, b). ''Ttest: '' @ a @ ''_'' @ b) (combinations2 (map fst conditions))
      else [(if length conditions = 2 then ''Ttest'' else ''ANOVA'') @ '': ''
              @ join ''_'' (map fst conditions)])"

fun correct_groups :: "('c, 'g) library \<Rightarrow> string list \<Rightarrow> frame \<Rightarrow> error + frame" where
  "correct_groups L [] annot = Inr annot"
| "correct_groups L (original_column_name # rest) annot =
     (case get_col annot original_column_name of
        Inl e \<Rightarrow> Inl e
      | Inr pvals \<Rightarrow>
          (case perform_correction L pvals (''Corrected '' @ original_column_name)
                  (''Log10_'' @ ''Corrected '' @ original_column_name) original_column_name annot of
             Inl e \<Rightarrow> Inl e
           | Inr annot' \<Rightarrow> correct_groups L rest annot'))"

text \<open>The significance engine followed by the corrector, as the pipeline runs them.\<close>

definition significance_then_correction ::
  "('c, 'g) library \<Rightarrow> bool \<Rightarrow> (string \<times> string list) list \<Rightarrow> frame \<Rightarrow> error + frame" where
  "significance_then_correction L stat_pairwise conditions annot =
     (case condition_statistics L stat_pairwise conditions annot of
        Inl e \<Rightarrow> Inl e
      | Inr annot' \<Rightarrow> correct_multiple_testing L stat_pairwise conditions annot')"

section \<open>Labels per sequence\<close>

text \<open>
  The detector writes a label to all rows of one sequence at a time, so the label
  column is determined by a partial map from sequences to labels. The three functions
  below are the loops of the detector on that map; \<open>render\<close> turns the map back into the
  label column of a table whose \<open>query_sequence\<close> column is \<open>qs\<close>. They are used to
  state and prove what the label column depends on.
\<close>

definition render :: "cell list \<Rightarrow> (string \<rightharpoonup> string) \<Rightarrow> cell list" where
  "render qs m =
     map (\<lambda>q. case q of Str s \<Rightarrow> (case m s of None \<Rightarrow> NaN | Some lab \<Rightarrow> Str lab) | _ \<Rightarrow> NaN) qs"

fun walk_labels :: "string list \<Rightarrow> string set \<times> string \<times> bool \<times> nat \<times> (string \<rightharpoonup> string)
    \<Rightarrow> string set \<times> string \<times> bool \<times> nat \<times> (string \<rightharpoonup> string)" where
  "walk_labels [] st = st"
| "walk_labels (pep # peps) (cleared, compare, rag_flag, lpep, m) =
    (if pep = drop 1 compare then
       (if rag_flag \<and> int (length pep) = int lpep - 1 then
          walk_labels peps (insert pep cleared, pep, rag_flag, lpep,
            m(pep \<mapsto> ''Dipeptidase_seed_Aminopeptidase_activity''))
        else
          walk_labels peps (insert pep cleared, pep, False, lpep,
            m(pep \<mapsto> ''Aminopeptidase_activity'')))
     else if pep = drop 2 compare then
       walk_labels peps (insert pep cleared, pep, True, length pep,
         m(pep \<mapsto> ''Dipeptidase_activity''))
     else walk_labels peps (cleared, compare, rag_flag, lpep, m))"

fun scan_labels :: "string list \<Rightarrow> string \<Rightarrow> string set \<times> (string \<rightharpoonup> string)
    \<Rightarrow> string set \<times> (string \<rightharpoonup> string)" where
  "scan_labels sequences seq (cleared, m) =
    (if length (matching_peptides sequences seq) > 1 then
       (case walk_labels (matching_peptides sequences seq)
               (insert seq cleared, seq, False, length seq, m) of
          (cleared', _, _, _, m') \<Rightarrow> (cleared', m'))
     else (insert seq cleared, m))"

fun outer_labels :: "string list \<Rightarrow> string list \<Rightarrow> string set \<times> (string \<rightharpoonup> string)
    \<Rightarrow> string set \<times> (string \<rightharpoonup> string)" where
  "outer_labels sequences [] st = st"
| "outer_labels sequences (seq # rest) (cleared, m) =
    (if seq \<notin> cleared then outer_labels sequences rest (scan_labels sequences seq (cleared, m))
     else outer_labels sequences rest (cleared, m))"

definition labels_of :: "string list \<Rightarrow> (string \<rightharpoonup> string)" where
  "labels_of sequences = snd (outer_labels sequences sequences ({}, Map.empty))"

text \<open>The candidates as the specification words them: the \<^emph>\<open>other\<close> sequences of the
  full set that end with the anchor of \<open>seq\<close>. The code's candidate list is
  \<open>matching_peptides\<close>.\<close>

definition other_candidates :: "string list \<Rightarrow> string \<Rightarrow> string list" where
  "other_candidates sequences seq = filter (\<lambda>p. p \<noteq> seq \<and> endswith p (last5 seq)) sequences"

section \<open>A small instance of the library interface\<close>

text \<open>
  Used to evaluate the model on concrete tables: division and logarithms that return a
  missing value where the result is not a finite number, the Bonferroni procedure as
  the multiple-testing correction, and the empirical distribution function as the CDF.
  Like \<open>multipletests\<close> of statsmodels, which computes \<open>1./ntests\<close> before anything else,
  the correction raises \<open>ZeroDivisionError\<close> on an empty array.
  The table has one row; the mean of a selection is its number of channels.
\<close>

definition example_divide :: "cell \<Rightarrow> cell \<Rightarrow> cell" where
  "example_divide x y =
     (case (x, y) of (Num a, Num b) \<Rightarrow> if b = 0 then NaN else Num (a / b) | _ \<Rightarrow> NaN)"

definition example_log :: "real \<Rightarrow> cell \<Rightarrow> cell" where
  "example_log base x = (case x of Num a \<Rightarrow> if a > 0 then Num (log base a) else NaN | _ \<Rightarrow> NaN)"

definition example_multipletests :: "cell list \<Rightarrow> real \<Rightarrow> string \<Rightarrow> error + cell list" where
  "example_multipletests xs a method =
     (if xs = [] then Inl ZeroDivisionError
      else Inr (map (\<lambda>c. case c of Num p \<Rightarrow> Num (min 1 (p * real (length xs))) | _ \<Rightarrow> c) xs))"

definition example_cdf :: "cell list \<Rightarrow> error + (cell \<Rightarrow> real option)" where
  "example_cdf xs =
     Inr (\<lambda>v. case v of
            Num x \<Rightarrow>
              if xs = [] then None
              else Some (real (length (filter (\<lambda>c. case c of Num y \<Rightarrow> y \<le> x | _ \<Rightarrow> False) xs))
                         / real (length xs))
          | _ \<Rightarrow> None)"

definition example_library :: "(string list, string list) library" where
  "example_library =
     \<lparr>select_columns = (\<lambda>channels. channels),
      mean_axis1 = (\<lambda>cs. [Num (real (length cs))]),
      std_axis1 = (\<lambda>cs. [Num 0]),
      np_divide = example_divide,
      np_log2 = example_log 2,
      np_log10 = example_log 10,
      log2_values = (\<lambda>cs. cs),
      ttest_ind = (\<lambda>g0 g1. [Num 1]),
      f_oneway = (\<lambda>g0 g1. [Num 1]),
      multipletests = example_multipletests,
      rv_histogram = example_cdf\<rparr>"

text \<open>The columns the specification counts: those named \<open>Fold_change: \<dots>\<close>.\<close>

definition fold_change_columns :: "frame \<Rightarrow> string list" where
  "fold_change_columns df = filter (\<lambda>n. take 13 n = ''Fold_change: '') (columns df)"

text \<open>The names the second loop of \<open>general_conditions\<close> writes, in the order of the
  loop: for every ordered pair the fold-change column and its base-2 logarithm.\<close>

definition fold_column_names :: "((string \<times> string list) \<times> (string \<times> string list)) list \<Rightarrow> string list" where
  "fold_column_names pairs =
     concat (map (\<lambda>((a, _), (b, _)). [fold_name a b, log2_fold_name a b]) pairs)"

section \<open>Properties of the table operations\<close>

lemma map_of_upsert: "map_of (upsert name c cs) = (map_of cs)(name \<mapsto> c)"
  by (induction cs) (auto simp: fun_eq_iff)

lemma get_col_set_col_same: "get_col (set_col name c df) name = Inr c"
  by (simp add: get_col_def set_col_def map_of_upsert)

lemma get_col_set_col_other: "n \<noteq> name \<Longrightarrow> get_col (set_col name c df) n = get_col df n"
  by (simp add: get_col_def set_col_def map_of_upsert)

lemma nrows_set_col: "nrows (set_col name c df) = nrows df"
  by (simp add: set_col_def)

lemma upsert_fresh: "name \<notin> set (map fst cs) \<Longrightarrow> upsert name c cs = cs @ [(name, c)]"
  by (induction cs) auto

lemma columns_set_col_fresh:
  "name \<notin> set (columns df) \<Longrightarrow> columns (set_col name c df) = columns df @ [name]"
  by (simp add: columns_def set_col_def upsert_fresh)

lemma index_of_Some:
  "index_of name ns = Some i \<Longrightarrow> i < length ns \<and> ns ! i = name"
proof (induction ns arbitrary: i)
  case Nil
  then show ?case by simp
next
  case (Cons n ns)
  show ?case
  proof (cases "n = name")
    case True
    then show ?thesis using Cons.prems by simp
  next
    case False
    then obtain j where j: "index_of name ns = Some j" "i = Suc j"
      using Cons.prems by auto
    from Cons.IH [OF j(1)] False j(2) show ?thesis by simp
  qed
qed

section \<open>Significance engine: the omnibus call\<close>

text \<open>
  C1. In omnibus mode with three or more conditions the call of \<open>perform_test\<close> passes one
  column selection per condition, that is at least six positional arguments to a function
  of five parameters: the run stops with \<open>TypeError\<close> and no ANOVA column is written.
\<close>

theorem condition_statistics_omnibus_three_or_more:
  "condition_statistics L False (c1 # c2 # c3 # cs) annot = Inl TypeError"
  by (simp add: condition_statistics_def split: prod.splits)

text \<open>With two conditions, or in pairwise mode, \<open>perform_test\<close> runs: on a table that
  does not have the two names yet it appends the p-value column and, directly after it,
  its base-10 logarithm.\<close>

lemma perform_test_appends_pair:
  assumes "column_name \<notin> set (columns annot)" and "column_log \<notin> set (columns annot)"
    and "column_log \<noteq> column_name"
  shows "columns (perform_test L test_func cols0 cols1 column_name column_log annot)
           = columns annot @ [column_name, column_log]"
proof -
  let ?p = "test_func (log2_values L cols0) (log2_values L cols1)"
  have c1: "columns (set_col column_name ?p annot) = columns annot @ [column_name]"
    using assms(1) by (rule columns_set_col_fresh)
  have "column_log \<notin> set (columns (set_col column_name ?p annot))"
    unfolding c1 using assms(2,3) by simp
  from columns_set_col_fresh [OF this] show ?thesis
    unfolding perform_test_def Let_def c1 by simp
qed

section \<open>Exopeptidase detector: the label column and the label map\<close>

lemma label_rows_render: "label_rows qs pep lab (render qs m) = render qs (m(pep \<mapsto> lab))"
  by (induction qs) (auto simp: label_rows_def render_def split: cell.splits)

lemma walk_render:
  "walk qs peps (cl, cmp, rf, lp, render qs m) =
     (case walk_labels peps (cl, cmp, rf, lp, m) of
        (cl', cmp', rf', lp', m') \<Rightarrow> (cl', cmp', rf', lp', render qs m'))"
  by (induction peps arbitrary: cl cmp rf lp m) (simp_all add: label_rows_render)

lemma scan_render:
  "scan qs seqs seq (cl, render qs m) =
     (case scan_labels seqs seq (cl, m) of (cl', m') \<Rightarrow> (cl', render qs m'))"
  by (simp add: walk_render split: prod.splits)

lemma outer_render:
  "outer qs seqs rest (cl, render qs m) =
     (case outer_labels seqs rest (cl, m) of (cl', m') \<Rightarrow> (cl', render qs m'))"
proof (induction rest arbitrary: cl m)
  case Nil
  show ?case by simp
next
  case (Cons seq rest)
  show ?case
  proof (cases "seq \<in> cl")
    case True
    then show ?thesis using Cons.IH by simp
  next
    case False
    obtain cl' m' where s: "scan_labels seqs seq (cl, m) = (cl', m')"
      by (cases "scan_labels seqs seq (cl, m)")
    have "scan qs seqs seq (cl, render qs m) = (cl', render qs m')"
      using s by (simp only: scan_render split: prod.splits) simp
    then show ?thesis using False s Cons.IH by simp
  qed
qed

lemma render_empty: "render qs Map.empty = replicate (length qs) NaN"
  by (induction qs) (auto simp: render_def split: cell.splits)

lemma exopeptidase_col_render: "exopeptidase_col qs = render qs (labels_of (sorted_sequences qs))"
  by (simp add: exopeptidase_col_def labels_of_def render_empty [symmetric] outer_render
      split: prod.splits)

lemma render_nth:
  "i < length qs \<Longrightarrow>
   render qs m ! i =
     (case qs ! i of Str s \<Rightarrow> (case m s of None \<Rightarrow> NaN | Some lab \<Rightarrow> Str lab) | _ \<Rightarrow> NaN)"
  by (simp add: render_def)

lemmas exo_eval = exopeptidase_col_def sorted_sequences_def dropna_str_def matching_peptides_def
  endswith_def last5_def label_rows_def

subsection \<open>Row order\<close>

text \<open>
  C4, as amended. The labels depend on the table only through the series the detector
  iterates: the non-missing sequences, stably sorted by descending length. Two tables
  with the same sorted series give every sequence the same label, and (taking the same
  table twice) all rows of one sequence carry one label. Rows of different lengths may
  be permuted freely; the relative order of rows of equal length is part of the input.
\<close>

theorem exopeptidase_labels_depend_on_sorted_sequences:
  assumes "sorted_sequences qs1 = sorted_sequences qs2"
    and "i < length qs1" and "j < length qs2" and "qs1 ! i = qs2 ! j"
  shows "exopeptidase_col qs1 ! i = exopeptidase_col qs2 ! j"
  using assms by (simp add: exopeptidase_col_render render_nth)

theorem exopeptidase_labels_depend_on_sorted_sequences_witness:
  "sorted_sequences [Str ''DEFGHIJ'', Str ''ABCDEFGHIJ'', NaN, Str ''BCDEFGHIJ'']
     = sorted_sequences [Str ''ABCDEFGHIJ'', Str ''BCDEFGHIJ'', Str ''DEFGHIJ'']
   \<and> exopeptidase_col [Str ''DEFGHIJ'', Str ''ABCDEFGHIJ'', NaN, Str ''BCDEFGHIJ''] ! 0
     = exopeptidase_col [Str ''ABCDEFGHIJ'', Str ''BCDEFGHIJ'', Str ''DEFGHIJ''] ! 2"
proof -
  have h: "sorted_sequences [Str ''DEFGHIJ'', Str ''ABCDEFGHIJ'', NaN, Str ''BCDEFGHIJ'']
     = sorted_sequences [Str ''ABCDEFGHIJ'', Str ''BCDEFGHIJ'', Str ''DEFGHIJ'']"
    by (simp add: sorted_sequences_def dropna_str_def)
  show ?thesis
    using h exopeptidase_labels_depend_on_sorted_sequences [OF h, of 0 2] by simp
qed

text \<open>
  The claim as stated fails: the two tables below hold the same five sequences, the
  first two rows (both of length 8) exchanged. Each of the two long sequences starts a
  series through \<open>CDEFGH\<close> and \<open>DEFGH\<close>, one in steps of one residue and one with a step of
  two, and the series scanned last overwrites the labels of the other.
\<close>

lemma row_order_first:
  "exopeptidase_col
     [Str ''ABCDEFGH'', Str ''XYCDEFGH'', Str ''BCDEFGH'', Str ''CDEFGH'', Str ''DEFGH'']
   = [NaN, NaN, Str ''Aminopeptidase_activity'', Str ''Dipeptidase_activity'',
      Str ''Dipeptidase_seed_Aminopeptidase_activity'']"
  by (simp add: exo_eval)

lemma row_order_second:
  "exopeptidase_col
     [Str ''XYCDEFGH'', Str ''ABCDEFGH'', Str ''BCDEFGH'', Str ''CDEFGH'', Str ''DEFGH'']
   = [NaN, NaN, Str ''Aminopeptidase_activity'', Str ''Aminopeptidase_activity'',
      Str ''Aminopeptidase_activity'']"
  by (simp add: exo_eval)

theorem exopeptidase_row_order_counterexample:
  "mset [Str ''ABCDEFGH'', Str ''XYCDEFGH'', Str ''BCDEFGH'', Str ''CDEFGH'', Str ''DEFGH'']
     = mset [Str ''XYCDEFGH'', Str ''ABCDEFGH'', Str ''BCDEFGH'', Str ''CDEFGH'', Str ''DEFGH'']
   \<and> [Str ''ABCDEFGH'', Str ''XYCDEFGH'', Str ''BCDEFGH'', Str ''CDEFGH'', Str ''DEFGH''] ! 3
     = Str ''CDEFGH''
   \<and> [Str ''XYCDEFGH'', Str ''ABCDEFGH'', Str ''BCDEFGH'', Str ''CDEFGH'', Str ''DEFGH''] ! 3
     = Str ''CDEFGH''
   \<and> exopeptidase_col
       [Str ''ABCDEFGH'', Str ''XYCDEFGH'', Str ''BCDEFGH'', Str ''CDEFGH'', Str ''DEFGH''] ! 3
     = Str ''Dipeptidase_activity''
   \<and> exopeptidase_col
       [Str ''XYCDEFGH'', Str ''ABCDEFGH'', Str ''BCDEFGH'', Str ''CDEFGH'', Str ''DEFGH''] ! 3
     = Str ''Aminopeptidase_activity''"
  by (simp add: row_order_first row_order_second add_mset_commute)

subsection \<open>The candidate threshold\<close>

lemma endswith_last5: "endswith seq (last5 seq)"
  by (simp add: endswith_def last5_def)

lemma length_matching_peptides:
  "length (matching_peptides sequences seq)
     = count_list sequences seq + length (other_candidates sequences seq)"
  by (induction sequences) (auto simp: matching_peptides_def other_candidates_def endswith_last5)

text \<open>
  C5, as amended. The candidate list of a scanned sequence holds every entry of the
  full series that ends with the anchor, the occurrences of the scanned sequence itself
  included. When the list has fewer than two entries (no other row ends with the
  anchor) the scan only marks the sequence cleared and labels no row.
\<close>

theorem scan_single_candidate:
  "length (matching_peptides sequences seq)
     = count_list sequences seq + length (other_candidates sequences seq)
   \<and> (length (matching_peptides sequences seq) < 2 \<longrightarrow>
        scan qs sequences seq (cleared, exo) = (insert seq cleared, exo))"
  by (simp add: length_matching_peptides)

theorem scan_single_candidate_witness:
  "length (matching_peptides [''ABCDEFGH'', ''KLMNOPQ''] ''ABCDEFGH'') < 2
   \<and> scan [Str ''ABCDEFGH'', Str ''KLMNOPQ''] [''ABCDEFGH'', ''KLMNOPQ''] ''ABCDEFGH''
        ({}, [NaN, NaN])
     = ({''ABCDEFGH''}, [NaN, NaN])"
proof -
  have h: "length (matching_peptides [''ABCDEFGH'', ''KLMNOPQ''] ''ABCDEFGH'') < 2"
    by (simp add: matching_peptides_def endswith_def last5_def)
  show ?thesis
    using h scan_single_candidate [of "[''ABCDEFGH'', ''KLMNOPQ'']" "''ABCDEFGH''"
        "[Str ''ABCDEFGH'', Str ''KLMNOPQ'']" "{}" "[NaN, NaN]"]
    by blast
qed

text \<open>
  The claim as stated fails: with exactly one other sequence on the anchor (fewer than
  two), the series is walked and that sequence is labelled.
\<close>

theorem scan_one_other_candidate_counterexample:
  "length (other_candidates [''ABCDEFGH'', ''BCDEFGH''] ''ABCDEFGH'') = 1
   \<and> scan [Str ''ABCDEFGH'', Str ''BCDEFGH''] [''ABCDEFGH'', ''BCDEFGH''] ''ABCDEFGH''
        ({}, [NaN, NaN])
     = ({''BCDEFGH'', ''ABCDEFGH''}, [NaN, Str ''Aminopeptidase_activity''])
   \<and> exopeptidase_col [Str ''ABCDEFGH'', Str ''BCDEFGH'']
     = [NaN, Str ''Aminopeptidase_activity'']"
  by (simp add: other_candidates_def exo_eval)

subsection \<open>The scenario of three ragged sequences\<close>

lemma walk_labels_append: "walk_labels (xs @ ys) st = walk_labels ys (walk_labels xs st)"
  by (induction xs st rule: walk_labels.induct) simp_all

lemma walk_labels_skip:
  "\<forall>p\<in>set peps. p \<noteq> drop 1 cmp \<and> p \<noteq> drop 2 cmp \<Longrightarrow>
   walk_labels peps (cl, cmp, rf, lp, m) = (cl, cmp, rf, lp, m)"
  by (induction peps) simp_all

lemma outer_labels_cleared: "set rest \<subseteq> cl \<Longrightarrow> outer_labels seqs rest (cl, m) = (cl, m)"
  by (induction rest) simp_all

lemma matching_peptides_all:
  "\<forall>p\<in>set seqs. endswith p (last5 seq) \<Longrightarrow> matching_peptides seqs seq = seqs"
  by (simp add: matching_peptides_def)

lemma sorted_three_blocks:
  assumes "sorted (map (\<lambda>s. - int (length s)) ys)"
    and "set ys \<subseteq> {''ABCDEFGHIJ'', ''BCDEFGHIJ'', ''DEFGHIJ''}"
  shows "\<exists>a b d. ys = replicate a ''ABCDEFGHIJ'' @ replicate b ''BCDEFGHIJ'' @ replicate d ''DEFGHIJ''"
  using assms
proof (induction ys)
  case Nil
  then show ?case by simp
next
  case (Cons y ys)
  then obtain a b d where ys: "ys = replicate a ''ABCDEFGHIJ'' @ replicate b ''BCDEFGHIJ'' @ replicate d ''DEFGHIJ''"
    by auto
  from Cons.prems have le: "\<forall>z\<in>set ys. length z \<le> length y" by auto
  from Cons.prems have "y = ''ABCDEFGHIJ'' \<or> y = ''BCDEFGHIJ'' \<or> y = ''DEFGHIJ''" by simp
  then show ?case
  proof (elim disjE)
    assume "y = ''ABCDEFGHIJ''"
    then have "y # ys = replicate (Suc a) ''ABCDEFGHIJ'' @ replicate b ''BCDEFGHIJ'' @ replicate d ''DEFGHIJ''"
      using ys by simp
    then show ?thesis by blast
  next
    assume y: "y = ''BCDEFGHIJ''"
    have "a = 0" using le ys y by (cases a) auto
    then have "y # ys = replicate 0 ''ABCDEFGHIJ'' @ replicate (Suc b) ''BCDEFGHIJ'' @ replicate d ''DEFGHIJ''"
      using ys y by simp
    then show ?thesis by blast
  next
    assume y: "y = ''DEFGHIJ''"
    have "a = 0" using le ys y by (cases a) auto
    moreover have "b = 0" using le ys y by (cases b) auto
    ultimately have "y # ys = replicate 0 ''ABCDEFGHIJ'' @ replicate 0 ''BCDEFGHIJ'' @ replicate (Suc d) ''DEFGHIJ''"
      using ys y by simp
    then show ?thesis by blast
  qed
qed

lemma labels_of_three_blocks:
  "labels_of (replicate (Suc a) ''ABCDEFGHIJ'' @ replicate (Suc b) ''BCDEFGHIJ'' @ replicate (Suc d) ''DEFGHIJ'')
   = [''BCDEFGHIJ'' \<mapsto> ''Aminopeptidase_activity'', ''DEFGHIJ'' \<mapsto> ''Dipeptidase_activity'']"
proof -
  let ?A = "''ABCDEFGHIJ''" and ?B = "''BCDEFGHIJ''" and ?D = "''DEFGHIJ''"
  let ?seqs = "replicate (Suc a) ?A @ replicate (Suc b) ?B @ replicate (Suc d) ?D"
  let ?m = "[?B \<mapsto> ''Aminopeptidase_activity'', ?D \<mapsto> ''Dipeptidase_activity'']"
  have all: "matching_peptides ?seqs ?A = ?seqs"
    by (rule matching_peptides_all) (auto simp: endswith_def last5_def)
  have w1: "walk_labels (replicate (Suc a) ?A) ({?A}, ?A, False, length ?A, Map.empty)
        = ({?A}, ?A, False, length ?A, Map.empty)"
    by (rule walk_labels_skip) auto
  have w2: "walk_labels (replicate (Suc b) ?B) ({?A}, ?A, False, length ?A, Map.empty)
        = ({?B, ?A}, ?B, False, length ?A, [?B \<mapsto> ''Aminopeptidase_activity''])"
    by (simp add: walk_labels_skip)
  have w3: "walk_labels (replicate (Suc d) ?D)
          ({?B, ?A}, ?B, False, length ?A, [?B \<mapsto> ''Aminopeptidase_activity''])
        = ({?D, ?B, ?A}, ?D, True, length ?D, ?m)"
    by (simp add: walk_labels_skip)
  have w: "walk_labels ?seqs ({?A}, ?A, False, length ?A, Map.empty)
        = ({?D, ?B, ?A}, ?D, True, length ?D, ?m)"
    by (simp only: walk_labels_append w1 w2 w3)
  have len: "length ?seqs > 1" by simp
  have sc: "scan_labels ?seqs ?A ({}, Map.empty) = ({?D, ?B, ?A}, ?m)"
    unfolding scan_labels.simps all w using len by simp
  have rest: "outer_labels ?seqs (replicate a ?A @ replicate (Suc b) ?B @ replicate (Suc d) ?D) ({?D, ?B, ?A}, ?m)
        = ({?D, ?B, ?A}, ?m)"
    by (rule outer_labels_cleared) auto
  have "outer_labels ?seqs ?seqs ({}, Map.empty) = ({?D, ?B, ?A}, ?m)"
  proof -
    have "outer_labels ?seqs ?seqs ({}, Map.empty)
        = outer_labels ?seqs (?A # (replicate a ?A @ replicate (Suc b) ?B @ replicate (Suc d) ?D)) ({}, Map.empty)"
      by simp
    also have "\<dots> = outer_labels ?seqs (replicate a ?A @ replicate (Suc b) ?B @ replicate (Suc d) ?D)
                       (scan_labels ?seqs ?A ({}, Map.empty))"
      by (simp only: outer_labels.simps) simp
    also have "\<dots> = ({?D, ?B, ?A}, ?m)"
      by (simp only: sc rest)
    finally show ?thesis .
  qed
  then show ?thesis by (simp only: labels_of_def snd_conv)
qed

lemma set_dropna_str: "set (dropna_str qs) = {s. Str s \<in> set qs}"
  by (induction qs) (auto simp: dropna_str_def split: cell.splits)

lemma set_sorted_sequences_scenario:
  assumes "set qs - {NaN} = {Str ''ABCDEFGHIJ'', Str ''BCDEFGHIJ'', Str ''DEFGHIJ''}"
  shows "set (sorted_sequences qs) = {''ABCDEFGHIJ'', ''BCDEFGHIJ'', ''DEFGHIJ''}"
proof -
  have "{s. Str s \<in> set qs} = {s. Str s \<in> set qs - {NaN}}" by auto
  also have "\<dots> = {''ABCDEFGHIJ'', ''BCDEFGHIJ'', ''DEFGHIJ''}"
    unfolding assms by auto
  finally show ?thesis by (simp add: sorted_sequences_def set_dropna_str)
qed


lemma sorted_sequences_scenario:
  assumes "set qs - {NaN} = {Str ''ABCDEFGHIJ'', Str ''BCDEFGHIJ'', Str ''DEFGHIJ''}"
  shows "\<exists>a b d. sorted_sequences qs =
           replicate (Suc a) ''ABCDEFGHIJ'' @ replicate (Suc b) ''BCDEFGHIJ'' @ replicate (Suc d) ''DEFGHIJ''"
proof -
  have s: "set (sorted_sequences qs) = {''ABCDEFGHIJ'', ''BCDEFGHIJ'', ''DEFGHIJ''}"
    using assms by (rule set_sorted_sequences_scenario)
  have "sorted (map (\<lambda>s. - int (length s)) (sorted_sequences qs))"
    by (simp add: sorted_sequences_def)
  then obtain a b d where e: "sorted_sequences qs =
      replicate a ''ABCDEFGHIJ'' @ replicate b ''BCDEFGHIJ'' @ replicate d ''DEFGHIJ''"
    using sorted_three_blocks [of "sorted_sequences qs"] s by blast
  have A: "''ABCDEFGHIJ'' \<in> set (sorted_sequences qs)" using s by simp
  have B: "''BCDEFGHIJ'' \<in> set (sorted_sequences qs)" using s by simp
  have D: "''DEFGHIJ'' \<in> set (sorted_sequences qs)" using s by simp
  have "a \<noteq> 0" using A unfolding e by (cases a) auto
  moreover have "b \<noteq> 0" using B unfolding e by (cases b) auto
  moreover have "d \<noteq> 0" using D unfolding e by (cases d) auto
  ultimately obtain a' b' d' where "a = Suc a'" "b = Suc b'" "d = Suc d'"
    by (metis not0_implies_Suc)
  with e show ?thesis by blast
qed

lemma render_scenario:
  assumes "\<forall>q\<in>set qs. q = NaN \<or> q = Str ''ABCDEFGHIJ'' \<or> q = Str ''BCDEFGHIJ'' \<or> q = Str ''DEFGHIJ''"
  shows "render qs [''BCDEFGHIJ'' \<mapsto> ''Aminopeptidase_activity'', ''DEFGHIJ'' \<mapsto> ''Dipeptidase_activity'']
       = map (\<lambda>q. if q = Str ''BCDEFGHIJ'' then Str ''Aminopeptidase_activity''
                   else if q = Str ''DEFGHIJ'' then Str ''Dipeptidase_activity''
                   else NaN) qs"
  unfolding render_def
proof (rule map_cong [OF refl])
  fix q assume "q \<in> set qs"
  then have "q = NaN \<or> q = Str ''ABCDEFGHIJ'' \<or> q = Str ''BCDEFGHIJ'' \<or> q = Str ''DEFGHIJ''"
    using assms by blast
  then show "(case q of Str s \<Rightarrow>
            (case [''BCDEFGHIJ'' \<mapsto> ''Aminopeptidase_activity'', ''DEFGHIJ'' \<mapsto> ''Dipeptidase_activity''] s of
               None \<Rightarrow> NaN | Some lab \<Rightarrow> Str lab) | _ \<Rightarrow> NaN)
         = (if q = Str ''BCDEFGHIJ'' then Str ''Aminopeptidase_activity''
                   else if q = Str ''DEFGHIJ'' then Str ''Dipeptidase_activity''
                   else NaN)"
    by (elim disjE) simp_all
qed

lemma scenario_mem:
  assumes "set qs - {NaN} = {Str ''ABCDEFGHIJ'', Str ''BCDEFGHIJ'', Str ''DEFGHIJ''}"
  shows "\<forall>q\<in>set qs. q = NaN \<or> q = Str ''ABCDEFGHIJ'' \<or> q = Str ''BCDEFGHIJ'' \<or> q = Str ''DEFGHIJ''"
proof
  fix q assume "q \<in> set qs"
  then have "q = NaN \<or> q \<in> set qs - {NaN}" by simp
  then show "q = NaN \<or> q = Str ''ABCDEFGHIJ'' \<or> q = Str ''BCDEFGHIJ'' \<or> q = Str ''DEFGHIJ''"
    unfolding assms by simp
qed

lemma scenario_no_num:
  assumes "\<forall>q\<in>set qs. q = NaN \<or> q = Str ''ABCDEFGHIJ'' \<or> q = Str ''BCDEFGHIJ'' \<or> q = Str ''DEFGHIJ''"
  shows "\<not> list_ex (\<lambda>c. case c of Num _ \<Rightarrow> True | _ \<Rightarrow> False) qs"
proof -
  have "\<And>q. q \<in> set qs \<Longrightarrow> \<not> (case q of Num _ \<Rightarrow> True | _ \<Rightarrow> False)"
  proof -
    fix q assume "q \<in> set qs"
    then have "q = NaN \<or> q = Str ''ABCDEFGHIJ'' \<or> q = Str ''BCDEFGHIJ'' \<or> q = Str ''DEFGHIJ''"
      using assms by blast
    then show "\<not> (case q of Num _ \<Rightarrow> True | _ \<Rightarrow> False)"
      by (elim disjE) simp_all
  qed
  then show ?thesis unfolding list_ex_iff by blast
qed

text \<open>
  C7. On a table whose non-missing sequences are exactly \<open>ABCDEFGHIJ\<close>, \<open>BCDEFGHIJ\<close> and
  \<open>DEFGHIJ\<close> (any number of rows each, in any order, missing values in between), the
  detector labels every row of \<open>BCDEFGHIJ\<close> as \<open>Aminopeptidase_activity\<close>, every row of
  \<open>DEFGHIJ\<close> as \<open>Dipeptidase_activity\<close>, and leaves every other row missing.
\<close>

theorem exopeptidase_ragged_scenario:
  assumes "get_col annot ''query_sequence'' = Inr qs"
    and "set qs - {NaN} = {Str ''ABCDEFGHIJ'', Str ''BCDEFGHIJ'', Str ''DEFGHIJ''}"
  shows "exopeptidase annot =
           Inr (set_col ''exopeptidase''
                  (map (\<lambda>q. if q = Str ''BCDEFGHIJ'' then Str ''Aminopeptidase_activity''
                            else if q = Str ''DEFGHIJ'' then Str ''Dipeptidase_activity''
                            else NaN) qs) annot)"
proof -
  have g: "get_col (set_scalar ''exopeptidase'' NaN annot) ''query_sequence'' = Inr qs"
    using assms(1) by (simp add: set_scalar_def get_col_set_col_other)
  note mem = scenario_mem [OF assms(2)]
  note nonum = scenario_no_num [OF mem]
  obtain a b d where "sorted_sequences qs =
      replicate (Suc a) ''ABCDEFGHIJ'' @ replicate (Suc b) ''BCDEFGHIJ'' @ replicate (Suc d) ''DEFGHIJ''"
    using sorted_sequences_scenario [OF assms(2)] by blast
  then have "exopeptidase_col qs =
      render qs [''BCDEFGHIJ'' \<mapsto> ''Aminopeptidase_activity'', ''DEFGHIJ'' \<mapsto> ''Dipeptidase_activity'']"
    by (simp only: exopeptidase_col_render labels_of_three_blocks)
  then have e: "exopeptidase_col qs = map (\<lambda>q. if q = Str ''BCDEFGHIJ'' then Str ''Aminopeptidase_activity''
                            else if q = Str ''DEFGHIJ'' then Str ''Dipeptidase_activity''
                            else NaN) qs"
    by (simp only: render_scenario [OF mem])
  have "exopeptidase annot = Inr (set_col ''exopeptidase'' (exopeptidase_col qs) annot)"
    by (simp only: exopeptidase_def g nonum sum.case if_False)
  then show ?thesis by (simp only: e)
qed

theorem exopeptidase_ragged_scenario_witness:
  "get_col \<lparr>nrows = 5, cols = [(''query_sequence'',
       [Str ''DEFGHIJ'', NaN, Str ''ABCDEFGHIJ'', Str ''BCDEFGHIJ'', Str ''DEFGHIJ''])]\<rparr> ''query_sequence''
     = Inr [Str ''DEFGHIJ'', NaN, Str ''ABCDEFGHIJ'', Str ''BCDEFGHIJ'', Str ''DEFGHIJ'']
   \<and> set [Str ''DEFGHIJ'', NaN, Str ''ABCDEFGHIJ'', Str ''BCDEFGHIJ'', Str ''DEFGHIJ''] - {NaN}
     = {Str ''ABCDEFGHIJ'', Str ''BCDEFGHIJ'', Str ''DEFGHIJ''}
   \<and> exopeptidase \<lparr>nrows = 5, cols = [(''query_sequence'',
       [Str ''DEFGHIJ'', NaN, Str ''ABCDEFGHIJ'', Str ''BCDEFGHIJ'', Str ''DEFGHIJ''])]\<rparr>
     = Inr \<lparr>nrows = 5, cols = [(''query_sequence'',
         [Str ''DEFGHIJ'', NaN, Str ''ABCDEFGHIJ'', Str ''BCDEFGHIJ'', Str ''DEFGHIJ'']),
        (''exopeptidase'',
         [Str ''Dipeptidase_activity'', NaN, NaN, Str ''Aminopeptidase_activity'',
          Str ''Dipeptidase_activity''])]\<rparr>"
proof -
  let ?qs = "[Str ''DEFGHIJ'', NaN, Str ''ABCDEFGHIJ'', Str ''BCDEFGHIJ'', Str ''DEFGHIJ'']"
  let ?annot = "\<lparr>nrows = 5, cols = [(''query_sequence'', ?qs)]\<rparr>"
  have h1: "get_col ?annot ''query_sequence'' = Inr ?qs" by (simp add: get_col_def)
  have h2: "set ?qs - {NaN} = {Str ''ABCDEFGHIJ'', Str ''BCDEFGHIJ'', Str ''DEFGHIJ''}"
    by (simp add: insert_Diff_if insert_commute)
  have h3: "exopeptidase ?annot = Inr \<lparr>nrows = 5, cols = [(''query_sequence'', ?qs),
        (''exopeptidase'',
         [Str ''Dipeptidase_activity'', NaN, NaN, Str ''Aminopeptidase_activity'',
          Str ''Dipeptidase_activity''])]\<rparr>"
    by (simp add: exopeptidase_ragged_scenario [OF h1 h2] set_col_def)
  show ?thesis using h1 h2 h3 by blast
qed

section \<open>Percentile classifier: scopes and cutoffs\<close>

subsection \<open>An unsupported scope\<close>

lemma permutations2_two: "permutations2 [x, y] = [(x, y), (y, x)]"
  by (simp add: permutations2_def upt_rec)

lemma percentile_pairs_unknown_scope:
  assumes "significance \<noteq> ''all''" and "significance \<noteq> ''nterm''"
  shows "percentile_pairs L significance l r pairs (annot, logged) =
     Inr (foldl (\<lambda>t (a, b). set_scalar (sig_name a b) NaN t) annot pairs,
          logged @ replicate (length pairs)
                     (''Significance invalid argument '' @ significance @ '', skipping''))"
  using assms
proof (induction pairs arbitrary: annot logged)
  case Nil
  then show ?case by simp
next
  case (Cons pair pairs)
  obtain a b where pair: "pair = (a, b)" by (cases pair)
  show ?case
    using Cons.prems
    by (simp add: pair Cons.IH [OF Cons.prems] replicate_app_Cons_same)
qed

text \<open>
  C2, as amended. When the scope is neither \<open>all\<close> nor \<open>nterm\<close> the classifier does not
  raise: for every ordered pair it sets the significance column to missing values, logs
  one line that names the scope, and continues with the next pair. The run returns the
  table with these all-missing columns and every other column as it was.
\<close>

theorem percentile_fold_unknown_scope:
  assumes "significance \<noteq> ''all''" and "significance \<noteq> ''nterm''"
  shows "percentile_fold L significance percentile conditions (annot, logged) =
     Inr (if length conditions > 1
          then (foldl (\<lambda>t (a, b). set_scalar (sig_name a b) NaN t) annot
                  (permutations2 (map fst conditions)),
                logged @ replicate (length (permutations2 (map fst conditions)))
                           (''Significance invalid argument '' @ significance @ '', skipping''))
          else (annot, logged))"
  using assms by (simp add: percentile_fold_def percentile_pairs_unknown_scope)


theorem percentile_fold_unknown_scope_witness:
  "''both'' \<noteq> ''all'' \<and> ''both'' \<noteq> ''nterm''
   \<and> percentile_fold example_library ''both'' (1 / 20) [(''a'', [''126'']), (''b'', [''127''])]
       (\<lparr>nrows = 2, cols = [(''nterm_annot'', [Str ''Internal'', NaN])]\<rparr>, [])
     = Inr (\<lparr>nrows = 2, cols = [(''nterm_annot'', [Str ''Internal'', NaN]),
                                   (''Fold a/b significance'', [NaN, NaN]),
                                   (''Fold b/a significance'', [NaN, NaN])]\<rparr>,
            [''Significance invalid argument both, skipping'',
             ''Significance invalid argument both, skipping''])"
proof -
  have h1: "''both'' \<noteq> ''all''" and h2: "''both'' \<noteq> ''nterm''" by simp_all
  show ?thesis
    using h1 h2
    by (simp add: percentile_fold_unknown_scope [OF h1 h2] permutations2_two sig_name_def
        set_scalar_def set_col_def numeral_2_eq_2)
qed

text \<open>
  The claim as stated fails: with the scope \<open>both\<close> the run returns a table, not an
  error.
\<close>

theorem percentile_fold_unknown_scope_counterexample:
  "percentile_fold example_library ''both'' (1 / 20) [(''a'', [''126'']), (''b'', [''127''])]
     (\<lparr>nrows = 1, cols = []\<rparr>, [])
   = Inr (\<lparr>nrows = 1, cols = [(''Fold a/b significance'', [NaN]),
                                 (''Fold b/a significance'', [NaN])]\<rparr>,
          [''Significance invalid argument both, skipping'',
           ''Significance invalid argument both, skipping''])"
  by (simp add: percentile_fold_def permutations2_two sig_name_def set_scalar_def set_col_def)

subsection \<open>Monotonicity in the cutoff\<close>

lemma classify_high: "cdf v = Some cd \<Longrightarrow> cd > r \<Longrightarrow> classify_fold_change cdf l r v = Str ''significant high''"
  by (simp add: classify_fold_change_def)

lemma classify_low: "cdf v = Some cd \<Longrightarrow> \<not> cd > r \<Longrightarrow> cd < l \<Longrightarrow> classify_fold_change cdf l r v = Str ''significant low''"
  by (simp add: classify_fold_change_def)

lemma classify_unmarked: "cdf v = Some cd \<Longrightarrow> \<not> cd > r \<Longrightarrow> \<not> cd < l \<Longrightarrow> classify_fold_change cdf l r v = NaN"
  by (simp add: classify_fold_change_def)

lemma classify_missing: "cdf v = None \<Longrightarrow> classify_fold_change cdf l r v = NaN"
  by (simp add: classify_fold_change_def)




lemma high_not_low: "Str ''significant high'' \<noteq> Str ''significant low''"
  by simp

lemma classify_monotone:
  assumes "0 < p'" and "p' < p" and "p < 1 / 2"
  shows "(classify_fold_change cdf p' (1 - p') v = Str ''significant high''
            \<longrightarrow> classify_fold_change cdf p (1 - p) v = Str ''significant high'')
       \<and> (classify_fold_change cdf p' (1 - p') v = Str ''significant low''
            \<longrightarrow> classify_fold_change cdf p (1 - p) v = Str ''significant low'')
       \<and> (classify_fold_change cdf p (1 - p) v = NaN
            \<longrightarrow> classify_fold_change cdf p' (1 - p') v = NaN)"
proof (cases "cdf v")
  case None
  have "classify_fold_change cdf p' (1 - p') v = NaN"
    using None by (rule classify_missing [where cdf = cdf and v = v])
  moreover have "classify_fold_change cdf p (1 - p) v = NaN"
    using None by (rule classify_missing [where cdf = cdf and v = v])
  ultimately show ?thesis by (simp only: cell.distinct simp_thms)
next
  case (Some cd)
  consider (hi') "cd > 1 - p'" | (hi) "\<not> cd > 1 - p'" "cd > 1 - p"
    | (lo') "\<not> cd > 1 - p" "cd < p'" | (lo) "\<not> cd > 1 - p" "\<not> cd < p'" "cd < p"
    | (mid) "\<not> cd > 1 - p" "\<not> cd < p"
    by linarith
  then show ?thesis
  proof cases
    case hi'
    then have "cd > 1 - p" using assms by linarith
    then have "classify_fold_change cdf p (1 - p) v = Str ''significant high''"
      by (rule classify_high [where cdf = cdf and v = v, OF Some])
    moreover have "classify_fold_change cdf p' (1 - p') v = Str ''significant high''"
      using hi' by (rule classify_high [where cdf = cdf and v = v, OF Some])
    ultimately show ?thesis by (simp only: cell.distinct simp_thms)
  next
    case hi
    then have "\<not> cd < p'" using assms by linarith
    then have "classify_fold_change cdf p' (1 - p') v = NaN"
      using hi(1) by (intro classify_unmarked [where cdf = cdf and v = v, OF Some])
    moreover have "classify_fold_change cdf p (1 - p) v = Str ''significant high''"
      using hi(2) by (rule classify_high [where cdf = cdf and v = v, OF Some])
    ultimately show ?thesis by (simp only: cell.distinct simp_thms)
  next
    case lo'
    then have a: "\<not> cd > 1 - p'" and b: "cd < p" using assms by linarith+
    have "classify_fold_change cdf p' (1 - p') v = Str ''significant low''"
      using a lo'(2) by (intro classify_low [where cdf = cdf and v = v, OF Some])
    moreover have "classify_fold_change cdf p (1 - p) v = Str ''significant low''"
      using lo'(1) b by (intro classify_low [where cdf = cdf and v = v, OF Some])
    ultimately show ?thesis by (simp only: cell.distinct simp_thms high_not_low [symmetric])
  next
    case lo
    then have a: "\<not> cd > 1 - p'" using assms by linarith
    have "classify_fold_change cdf p' (1 - p') v = NaN"
      using a lo(2) by (intro classify_unmarked [where cdf = cdf and v = v, OF Some])
    moreover have "classify_fold_change cdf p (1 - p) v = Str ''significant low''"
      using lo(1,3) by (intro classify_low [where cdf = cdf and v = v, OF Some])
    ultimately show ?thesis by (simp only: cell.distinct simp_thms)
  next
    case mid
    then have a: "\<not> cd > 1 - p'" and b: "\<not> cd < p'" using assms by linarith+
    have "classify_fold_change cdf p' (1 - p') v = NaN"
      using a b by (intro classify_unmarked [where cdf = cdf and v = v, OF Some])
    moreover have "classify_fold_change cdf p (1 - p) v = NaN"
      using mid by (intro classify_unmarked [where cdf = cdf and v = v, OF Some])
    ultimately show ?thesis by (simp only: cell.distinct simp_thms)
  qed
qed


text \<open>
  C9. For one fold-change column, one scope (the mask \<open>rows\<close>) and hence one CDF, and two
  cutoffs \<open>p' < p\<close> in \<open>(0, 1/2)\<close>: a row labelled \<open>significant high\<close> or \<open>significant low\<close>
  at the tighter cutoff \<open>p'\<close> carries the same label at \<open>p\<close>, and a row unmarked at \<open>p\<close>
  is unmarked at \<open>p'\<close>. The cutoffs are the pair \<open>left_cutoff = p\<close>,
  \<open>right_cutoff = 1 - p\<close> that \<open>percentile_fold\<close> computes.
\<close>

theorem significance_column_monotone:
  assumes "0 < p'" and "p' < p" and "p < 1 / 2"
    and "i < length vals" and "i < length rows"
  shows "(significance_column cdf p' (1 - p') vals rows ! i = Str ''significant high''
            \<longrightarrow> significance_column cdf p (1 - p) vals rows ! i = Str ''significant high'')
       \<and> (significance_column cdf p' (1 - p') vals rows ! i = Str ''significant low''
            \<longrightarrow> significance_column cdf p (1 - p) vals rows ! i = Str ''significant low'')
       \<and> (significance_column cdf p (1 - p) vals rows ! i = NaN
            \<longrightarrow> significance_column cdf p' (1 - p') vals rows ! i = NaN)"
proof (cases "rows ! i")
  case True
  then have eq: "\<And>l r. significance_column cdf l r vals rows ! i = classify_fold_change cdf l r (vals ! i)"
    using assms(4,5) by (simp add: significance_column_def)
  show ?thesis
    unfolding eq by (rule classify_monotone [OF assms(1-3)])
next
  case False
  then have "\<And>l r. significance_column cdf l r vals rows ! i = NaN"
    using assms(4,5) by (simp add: significance_column_def)
  then show ?thesis by (simp only: cell.distinct simp_thms)
qed



theorem significance_column_monotone_witness:
  "significance_column (\<lambda>v. case v of Num x \<Rightarrow> Some x | _ \<Rightarrow> None) (1 / 20) (1 - 1 / 20)
      [Num (97 / 100), Num (7 / 100), Num (1 / 2)] [True, True, True] ! 0 = Str ''significant high''
   \<and> significance_column (\<lambda>v. case v of Num x \<Rightarrow> Some x | _ \<Rightarrow> None) (1 / 10) (1 - 1 / 10)
      [Num (97 / 100), Num (7 / 100), Num (1 / 2)] [True, True, True] ! 0 = Str ''significant high''"
proof -
  let ?cdf = "\<lambda>v. case v of Num x \<Rightarrow> Some x | _ \<Rightarrow> None"
  let ?vals = "[Num (97 / 100), Num (7 / 100), Num (1 / 2)]"
  have h: "(0::real) < 1 / 20" "(1 / 20 :: real) < 1 / 10" "(1 / 10 :: real) < 1 / 2"
    "0 < length ?vals" "0 < length [True, True, True]"
    by simp_all
  have a: "significance_column ?cdf (1 / 20) (1 - 1 / 20) ?vals [True, True, True] ! 0
             = Str ''significant high''"
    by (simp add: significance_column_def classify_fold_change_def)
  have b: "significance_column ?cdf (1 / 10) (1 - 1 / 10) ?vals [True, True, True] ! 0
             = Str ''significant high''"
    by (rule significance_column_monotone [OF h, THEN conjunct1, THEN mp, OF a])
  show ?thesis by (rule conjI [OF a b])
qed

subsection \<open>The restricted scope\<close>

lemma endswith_rev: "endswith s suf \<longleftrightarrow> take (length suf) (rev s) = rev suf"
proof
  assume "endswith s suf"
  then have l: "length suf \<le> length s" and d: "drop (length s - length suf) s = suf"
    by (simp_all add: endswith_def)
  have "take (length suf) (rev s) = rev (drop (length s - length suf) s)"
    by (simp add: take_rev)
  then show "take (length suf) (rev s) = rev suf" using d by simp
next
  assume t: "take (length suf) (rev s) = rev suf"
  then have "length (take (length suf) (rev s)) = length suf" by simp
  then have l: "length suf \<le> length s" by simp
  have "rev (drop (length s - length suf) s) = rev suf"
    using t by (simp add: take_rev)
  then have "drop (length s - length suf) s = suf" by simp
  with l show "endswith s suf" by (simp add: endswith_def)
qed

lemma fold_name_endswith_low: "endswith (fold_name a b) ''low'' \<longleftrightarrow> endswith b ''low''"
proof (cases "rev b")
  case Nil
  then show ?thesis by (simp add: endswith_rev fold_name_def)
next
  case (Cons x xs)
  note c1 = Cons
  show ?thesis
  proof (cases xs)
    case Nil
    then show ?thesis using c1 by (simp add: endswith_rev fold_name_def)
  next
    case (Cons y ys)
    note c2 = Cons
    show ?thesis
    proof (cases ys)
      case Nil
      then show ?thesis using c1 c2 by (simp add: endswith_rev fold_name_def)
    next
      case (Cons z zs)
      then show ?thesis using c1 c2 by (simp add: endswith_rev fold_name_def)
    qed
  qed
qed

lemma sig_name_not_fold_name: "sig_name a b \<noteq> fold_name c d"
  by (simp add: sig_name_def fold_name_def)

lemma sig_name_not_nterm_annot: "sig_name a b \<noteq> ''nterm_annot''"
  by (simp add: sig_name_def)

lemma nterm_rows_fold_name:
  "nterm_rows (fold_name a b) nterm_annot =
     map (\<lambda>c. (c = Str ''Internal'') \<noteq> endswith b ''low'') nterm_annot"
  by (cases "endswith b ''low''") (simp_all add: nterm_rows_def fold_name_endswith_low Let_def)

text \<open>
  C10, as amended. Under the \<open>nterm\<close> scope the subframe of the pair \<open>(a, b)\<close> is decided by
  the name of the second condition: the column name \<open>Fold_change: a/b\<close> ends with
  \<open>low\<close> exactly when \<open>b\<close> does. When \<open>b\<close> does not end with \<open>low\<close>, the histogram is
  built from, and labels are assigned to, exactly the rows whose \<open>nterm_annot\<close> is
  \<open>Internal\<close>; when it does, exactly the other rows. Rows outside the subframe get a
  missing value.
\<close>

theorem percentile_pair_nterm_rows:
  assumes "get_col annot ''nterm_annot'' = Inr nterm_annot"
    and "get_col annot (fold_name a b) = Inr vals"
    and "rows = map (\<lambda>c. (c = Str ''Internal'') \<noteq> endswith b ''low'') nterm_annot"
    and "rv_histogram L (dropna (subframe_values vals rows)) = Inr cdf"
  shows "percentile_pair L ''nterm'' l r (a, b) (annot, logged) =
           Inr (set_col (sig_name a b) (significance_column cdf l r vals rows)
                  (set_scalar (sig_name a b) NaN annot), logged)"
proof -
  let ?annot = "set_scalar (sig_name a b) NaN annot"
  have g1: "get_col ?annot ''nterm_annot'' = Inr nterm_annot"
    using assms(1) sig_name_not_nterm_annot [of a b]
    by (simp add: set_scalar_def get_col_set_col_other)
  have g2: "get_col ?annot (fold_name a b) = Inr vals"
    using assms(2) sig_name_not_fold_name [of a b a b]
    by (simp add: set_scalar_def get_col_set_col_other)
  have r: "nterm_rows (fold_name a b) nterm_annot = rows"
    by (simp only: nterm_rows_fold_name assms(3))
  have c: "classify_subframe L l r (fold_name a b) (sig_name a b) rows ?annot =
        Inr (set_col (sig_name a b) (significance_column cdf l r vals rows) ?annot)"
    by (simp add: classify_subframe_def g2 assms(4))
  show ?thesis
    by (simp add: Let_def g1 r c)
qed

theorem percentile_pair_nterm_rows_witness:
  "percentile_pair example_library ''nterm'' (1 / 10) (1 - 1 / 10) (''treated'', ''control'')
       (\<lparr>nrows = 2, cols = [(''nterm_annot'', [Str ''Internal'', Str ''Natural'']),
                             (''Fold_change: treated/control'', [Num 1, Num 2])]\<rparr>, [])
     = Inr (\<lparr>nrows = 2, cols = [(''nterm_annot'', [Str ''Internal'', Str ''Natural'']),
                                   (''Fold_change: treated/control'', [Num 1, Num 2]),
                                   (''Fold treated/control significance'',
                                    [Str ''significant high'', NaN])]\<rparr>, [])"
proof -
  let ?annot = "\<lparr>nrows = 2, cols = [(''nterm_annot'', [Str ''Internal'', Str ''Natural'']),
                             (''Fold_change: treated/control'', [Num 1, Num 2])]\<rparr>"
  let ?cdf = "\<lambda>v. case v of
            Num x \<Rightarrow>
              if [Num 1] = [] then None
              else Some (real (length (filter (\<lambda>c. case c of Num y \<Rightarrow> y \<le> x | _ \<Rightarrow> False) [Num 1]))
                         / real (length [Num (1::real)]))
          | _ \<Rightarrow> None"
  have h1: "get_col ?annot ''nterm_annot'' = Inr [Str ''Internal'', Str ''Natural'']"
    by (simp add: get_col_def)
  have h2: "get_col ?annot (fold_name ''treated'' ''control'') = Inr [Num 1, Num 2]"
    by (simp add: get_col_def fold_name_def)
  have h3: "[True, False] = map (\<lambda>c. (c = Str ''Internal'') \<noteq> endswith ''control'' ''low'')
                 [Str ''Internal'', Str ''Natural'']"
    by (simp add: endswith_def)
  have h4: "rv_histogram example_library (dropna (subframe_values [Num 1, Num 2] [True, False]))
              = Inr ?cdf"
    by (simp add: example_library_def example_cdf_def dropna_def subframe_values_def)
  show ?thesis
    unfolding percentile_pair_nterm_rows [OF h1 h2 h3 h4]
    by (simp add: sig_name_def set_scalar_def set_col_def significance_column_def
        classify_fold_change_def numeral_2_eq_2)
qed

text \<open>
  The claim as stated fails: for the conditions \<open>high\<close> and \<open>low\<close> the column
  \<open>Fold_change: high/low\<close> ends with \<open>low\<close>, the non-internal branch is taken, and the
  label goes to the row that is not \<open>Internal\<close>.
\<close>

theorem nterm_rows_low_counterexample:
  "endswith (fold_name ''high'' ''low'') ''low''
   \<and> nterm_rows (fold_name ''high'' ''low'') [Str ''Internal'', Str ''Natural'', NaN]
     = [False, True, True]
   \<and> percentile_pair example_library ''nterm'' (1 / 10) (1 - 1 / 10) (''high'', ''low'')
       (\<lparr>nrows = 2, cols = [(''nterm_annot'', [Str ''Internal'', Str ''Natural'']),
                             (''Fold_change: high/low'', [Num 1, Num 2])]\<rparr>, [])
     = Inr (\<lparr>nrows = 2, cols = [(''nterm_annot'', [Str ''Internal'', Str ''Natural'']),
                                   (''Fold_change: high/low'', [Num 1, Num 2]),
                                   (''Fold high/low significance'',
                                    [NaN, Str ''significant high''])]\<rparr>, [])"
  by (simp add: nterm_rows_def fold_name_def endswith_def sig_name_def set_scalar_def set_col_def
      get_col_def classify_subframe_def example_library_def example_cdf_def dropna_def
      subframe_values_def significance_column_def classify_fold_change_def numeral_2_eq_2)

subsection \<open>The full-table scope\<close>

text \<open>Under the scope \<open>all\<close> the subframe is the whole table: the column written for a
  pair is \<open>significance_column\<close> on all rows.\<close>

lemma percentile_pair_all_rows:
  assumes "get_col annot (fold_name a b) = Inr vals"
    and "rows = replicate (nrows annot) True"
    and "rv_histogram L (dropna (subframe_values vals rows)) = Inr cdf"
  shows "percentile_pair L ''all'' l r (a, b) (annot, logged) =
           Inr (set_col (sig_name a b) (significance_column cdf l r vals rows)
                  (set_scalar (sig_name a b) NaN annot), logged)"
proof -
  let ?annot = "set_scalar (sig_name a b) NaN annot"
  have g2: "get_col ?annot (fold_name a b) = Inr vals"
    using assms(1) sig_name_not_fold_name [of a b a b]
    by (simp add: set_scalar_def get_col_set_col_other)
  have n: "replicate (nrows ?annot) True = rows"
    by (simp add: assms(2) set_scalar_def nrows_set_col)
  have c: "classify_subframe L l r (fold_name a b) (sig_name a b) rows ?annot =
        Inr (set_col (sig_name a b) (significance_column cdf l r vals rows) ?annot)"
    by (simp add: classify_subframe_def g2 assms(3))
  show ?thesis
    by (simp add: Let_def n c)
qed

section \<open>Multiple-testing corrector: the corrected array and its columns\<close>

subsection \<open>The corrected array\<close>

lemma np_isnan_floats:
  assumes "\<forall>c\<in>set pvals. \<forall>s. c \<noteq> Str s"
  shows "np_isnan pvals = Inr (map (\<lambda>c. c = NaN) pvals)"
proof -
  have "\<not> list_ex (\<lambda>c. case c of Str _ \<Rightarrow> True | _ \<Rightarrow> False) pvals"
    unfolding list_ex_iff
  proof
    assume "\<exists>c\<in>set pvals. case c of Str _ \<Rightarrow> True | _ \<Rightarrow> False"
    then obtain c where c: "c \<in> set pvals" "case c of Str _ \<Rightarrow> True | _ \<Rightarrow> False" by blast
    obtain s where "c = Str s" using c(2) by (cases c) simp_all
    with c(1) assms show False by blast
  qed
  then show ?thesis by (simp only: np_isnan_def if_False)
qed

lemma pvals_no_nan:
  "map fst (filter snd (zip pvals (map Not (map (\<lambda>c. c = NaN) pvals)))) = dropna pvals"
  by (induction pvals) (simp_all add: dropna_def)

lemma length_filter_not_nan:
  "length (filter id (map Not (map (\<lambda>c. c = NaN) pvals))) = length (dropna pvals)"
  by (induction pvals) (simp_all add: dropna_def)

lemma put_mask_not_nan:
  assumes "length vs = length (dropna pvals)" and "NaN \<notin> set vs"
  shows "length (put_mask (replicate (length pvals) NaN) (map Not (map (\<lambda>c. c = NaN) pvals)) vs)
           = length pvals
       \<and> map (\<lambda>c. c = NaN)
            (put_mask (replicate (length pvals) NaN) (map Not (map (\<lambda>c. c = NaN) pvals)) vs)
           = map (\<lambda>c. c = NaN) pvals
       \<and> dropna (put_mask (replicate (length pvals) NaN) (map Not (map (\<lambda>c. c = NaN) pvals)) vs)
           = vs"
  using assms
proof (induction pvals arbitrary: vs)
  case Nil
  then show ?case by (simp add: dropna_def)
next
  case (Cons p pvals)
  show ?case
  proof (cases "p = NaN")
    case True
    then have "length vs = length (dropna pvals)" using Cons.prems(1) by (simp add: dropna_def)
    from Cons.IH [OF this Cons.prems(2)] True show ?thesis by (simp add: dropna_def)
  next
    case False
    then obtain v vs' where vs: "vs = v # vs'"
      using Cons.prems(1) by (cases vs) (simp_all add: dropna_def)
    have l: "length vs' = length (dropna pvals)"
      using Cons.prems(1) False vs by (simp add: dropna_def)
    have n: "NaN \<notin> set vs'" and v: "v \<noteq> NaN" using Cons.prems(2) vs by auto
    from Cons.IH [OF l n] False v show ?thesis by (simp add: vs dropna_def)
  qed
qed

text \<open>
  For a float array of p-values on which the correction procedure returns one
  non-missing value per non-missing input, the corrected array has the length of the
  input, is missing at exactly the positions where the input is missing (so the counts
  agree), and holds the corrected values, in order, at the non-missing positions.
\<close>

lemma corrected_pvals_nan_positions:
  assumes "\<forall>c\<in>set pvals. \<forall>s. c \<noteq> Str s"
    and "multipletests L (dropna pvals) alpha multiple_testing = Inr corrected"
    and "length corrected = length (dropna pvals)"
    and "NaN \<notin> set corrected"
  shows "\<exists>out. corrected_pvals L pvals = Inr out
           \<and> length out = length pvals
           \<and> map (\<lambda>c. c = NaN) out = map (\<lambda>c. c = NaN) pvals
           \<and> length (filter (\<lambda>c. c = NaN) out) = length (filter (\<lambda>c. c = NaN) pvals)
           \<and> dropna out = corrected"
proof -
  let ?out = "put_mask (replicate (length pvals) NaN) (map Not (map (\<lambda>c. c = NaN) pvals)) corrected"
  have m: "mask_assign (replicate (length pvals) NaN) (map Not (map (\<lambda>c. c = NaN) pvals)) corrected
             = Inr ?out"
    unfolding mask_assign_def length_filter_not_nan assms(3) by (simp only: refl if_True)
  have c: "corrected_pvals L pvals = Inr ?out"
    by (simp only: corrected_pvals_def np_isnan_floats [OF assms(1)] sum.case Let_def
        pvals_no_nan assms(2) m)
  note p = put_mask_not_nan [OF assms(3,4)]
  have "length (filter (\<lambda>c. c = NaN) ?out) = length (filter id (map (\<lambda>c. c = NaN) ?out))"
    by (simp add: filter_map comp_def)
  also have "\<dots> = length (filter id (map (\<lambda>c. c = NaN) pvals))"
    using p by simp
  also have "\<dots> = length (filter (\<lambda>c. c = NaN) pvals)"
    by (simp add: filter_map comp_def)
  finally have cnt: "length (filter (\<lambda>c. c = NaN) ?out) = length (filter (\<lambda>c. c = NaN) pvals)" .
  show ?thesis using c p cnt by blast
qed

lemma corrected_pvals_nan_positions_example:
  "\<exists>out. corrected_pvals example_library [Num (1 / 100), NaN, Num (1 / 2)] = Inr out
         \<and> length out = 3
         \<and> map (\<lambda>c. c = NaN) out = [False, True, False]
         \<and> dropna out = [Num (1 / 50), Num 1]"
proof -
  let ?pvals = "[Num (1 / 100), NaN, Num (1 / 2)]"
  have h1: "\<forall>c\<in>set ?pvals. \<forall>s. c \<noteq> Str s" by simp
  have h2: "multipletests example_library (dropna ?pvals) alpha multiple_testing
              = Inr [Num (1 / 50), Num 1]"
    by (simp add: example_library_def example_multipletests_def dropna_def)
  have h3: "length [Num (1 / 50), Num 1] = length (dropna ?pvals)" by (simp add: dropna_def)
  have h4: "NaN \<notin> set [Num (1 / 50), Num 1]" by simp
  from corrected_pvals_nan_positions [OF h1 h2 h3 h4]
  obtain out where "corrected_pvals example_library ?pvals = Inr out"
    and "length out = length ?pvals"
    and "map (\<lambda>c. c = NaN) out = map (\<lambda>c. c = NaN) ?pvals"
    and "dropna out = [Num (1 / 50), Num 1]"
    by blast
  then show ?thesis by (intro exI [of _ out]) simp
qed

lemma corrected_pvals_all_missing:
  assumes "multipletests L [] alpha multiple_testing = Inl e"
  shows "corrected_pvals L (replicate n NaN) = Inl e"
proof -
  have i: "np_isnan (replicate n NaN) = Inr (replicate n True)"
    by (induction n) (simp_all add: np_isnan_def list_ex_iff)
  have z: "map fst (filter snd (zip (replicate n NaN) (map Not (replicate n True)))) = []"
    by (induction n) simp_all
  show ?thesis
    by (simp only: corrected_pvals_def i sum.case Let_def z assms)
qed

text \<open>
  C3. A p-value column without any non-missing entry (every row untestable) leaves the
  empty array for the correction procedure. statsmodels divides by the number of tests
  first and raises \<open>ZeroDivisionError\<close>: \<open>perform_correction\<close> propagates it, the run
  stops, and no corrected array of the input's length is produced. The claim asks for
  an all-missing array of the same length here. Evaluated on the array and on the
  method \<open>correct_multiple_testing\<close> with two conditions:
\<close>

theorem corrected_pvals_all_missing_raises:
  "corrected_pvals example_library [NaN, NaN, NaN] = Inl ZeroDivisionError
   \<and> correct_multiple_testing example_library False [(''a'', [''126'']), (''b'', [''127''])]
       \<lparr>nrows = 3, cols = [(''Ttest: a_b'', [NaN, NaN, NaN]),
                             (''Log10_Ttest: a_b'', [NaN, NaN, NaN])]\<rparr>
     = Inl ZeroDivisionError"
proof -
  have c: "corrected_pvals example_library [NaN, NaN, NaN] = Inl ZeroDivisionError"
    by (simp add: corrected_pvals_def np_isnan_def example_library_def example_multipletests_def)
  show ?thesis
    by (simp add: c correct_multiple_testing_def multiple_testing_def get_col_def
        perform_correction_def)
qed

subsection \<open>The inserted columns\<close>

lemma perform_correction_result:
  assumes "corrected_pvals L pvals = Inr corrected"
    and "index_of original_column_name (columns annot) = Some i"
    and "i + 1 < length (cols annot)"
    and "column_name \<notin> set (columns annot)"
    and "column_log \<notin> set (columns annot)"
    and "column_log \<noteq> column_name"
  shows "perform_correction L pvals column_name column_log original_column_name annot =
           Inr (annot\<lparr>cols := take (i + 2) (cols annot)
                                 @ [(column_name, corrected),
                                    (column_log, map (np_log10 L) corrected)]
                                 @ drop (i + 2) (cols annot)\<rparr>)"
proof -
  let ?cs = "cols annot"
  let ?annot' = "annot\<lparr>cols := take (i + 2) ?cs @ [(column_name, corrected)] @ drop (i + 2) ?cs\<rparr>"
  have le: "i + 2 \<le> length ?cs" using assms(3) by simp
  have loc: "get_loc annot original_column_name = Inr i"
    by (simp add: get_loc_def assms(2))
  have ins1: "insert_col (i + 2) column_name corrected annot = Inr ?annot'"
    using assms(4) le by (simp add: insert_col_def)
  have cols': "set (columns ?annot') = insert column_name (set (columns annot))"
  proof -
    have "set (columns ?annot')
            = insert column_name
                (set (map fst (take (i + 2) ?cs)) \<union> set (map fst (drop (i + 2) ?cs)))"
      by (simp add: columns_def)
    moreover have "set (map fst ?cs)
            = set (map fst (take (i + 2) ?cs)) \<union> set (map fst (drop (i + 2) ?cs))"
      by (metis append_take_drop_id map_append set_append)
    ultimately show ?thesis by (simp only: columns_def)
  qed
  have fresh: "column_log \<notin> set (columns ?annot')"
    using assms(5,6) by (simp only: cols') simp
  have len': "i + 3 \<le> length (cols ?annot')" using le by simp
  have tk: "take (i + 3) (cols ?annot') = take (i + 2) ?cs @ [(column_name, corrected)]"
    using le by simp
  have dr: "drop (i + 3) (cols ?annot') = drop (i + 2) ?cs"
    using le by simp
  have ins2: "insert_col (i + 3) column_log (map (np_log10 L) corrected) ?annot'
       = Inr (annot\<lparr>cols := take (i + 2) ?cs
                                 @ [(column_name, corrected),
                                    (column_log, map (np_log10 L) corrected)]
                                 @ drop (i + 2) ?cs\<rparr>)"
    unfolding insert_col_def using fresh len' by (simp only: tk dr) simp
  show ?thesis
    by (simp only: perform_correction_def assms(1) loc ins1 ins2 sum.case)
qed

text \<open>
  One call. The original p-value column is at index \<open>i\<close> and a column follows it at
  \<open>i + 1\<close>. When the two new names are not in the table, the call returns a table in which
  the four columns from index \<open>i\<close> on are the original pair, the corrected column and
  its logarithm, in this order; exactly two columns are new, and removing them gives
  back the original columns in their order.
\<close>

lemma perform_correction_columns:
  assumes "corrected_pvals L pvals = Inr corrected"
    and "index_of original_column_name (columns annot) = Some i"
    and "i + 1 < length (cols annot)"
    and "column_name \<notin> set (columns annot)"
    and "column_log \<notin> set (columns annot)"
    and "column_log \<noteq> column_name"
  shows "\<exists>annot'.
           perform_correction L pvals column_name column_log original_column_name annot = Inr annot'
         \<and> nrows annot' = nrows annot
         \<and> cols annot' = take (i + 2) (cols annot)
                           @ [(column_name, corrected), (column_log, map (np_log10 L) corrected)]
                           @ drop (i + 2) (cols annot)
         \<and> take 4 (drop i (columns annot'))
             = [original_column_name, columns annot ! (i + 1), column_name, column_log]
         \<and> filter (\<lambda>(n, c). n \<noteq> column_name \<and> n \<noteq> column_log) (cols annot') = cols annot"
proof -
  let ?cs = "cols annot"
  let ?new = "[(column_name, corrected), (column_log, map (np_log10 L) corrected)]"
  let ?annot' = "annot\<lparr>cols := take (i + 2) ?cs @ ?new @ drop (i + 2) ?cs\<rparr>"
  have r: "perform_correction L pvals column_name column_log original_column_name annot = Inr ?annot'"
    by (rule perform_correction_result [OF assms])
  have le: "i + 2 \<le> length ?cs" using assms(3) by simp
  have orig: "columns annot ! i = original_column_name"
    using index_of_Some [OF assms(2)] by simp
  have tk: "take (i + 2) (columns annot) = take i (columns annot) @ [columns annot ! i, columns annot ! (i + 1)]"
    using assms(3) by (simp add: columns_def take_Suc_conv_app_nth)
  have "columns ?annot' = take i (columns annot)
          @ [original_column_name, columns annot ! (i + 1), column_name, column_log]
          @ drop (i + 2) (columns annot)"
    using tk orig by (simp add: columns_def take_map drop_map)
  moreover have "length (take i (columns annot)) = i" using assms(3) by (simp add: columns_def)
  ultimately have four: "take 4 (drop i (columns ?annot'))
      = [original_column_name, columns annot ! (i + 1), column_name, column_log]"
    by simp
  have fresh: "\<forall>x\<in>set ?cs. case x of (n, c) \<Rightarrow> n \<noteq> column_name \<and> n \<noteq> column_log"
  proof
    fix x assume "x \<in> set ?cs"
    then have "fst x \<in> set (columns annot)" by (simp add: columns_def)
    then show "case x of (n, c) \<Rightarrow> n \<noteq> column_name \<and> n \<noteq> column_log"
      using assms(4,5) by (cases x) auto
  qed
  then have "filter (\<lambda>(n, c). n \<noteq> column_name \<and> n \<noteq> column_log) ?cs = ?cs"
    by (simp only: filter_id_conv)
  then have "filter (\<lambda>(n, c). n \<noteq> column_name \<and> n \<noteq> column_log) (take (i + 2) ?cs) = take (i + 2) ?cs"
    and "filter (\<lambda>(n, c). n \<noteq> column_name \<and> n \<noteq> column_log) (drop (i + 2) ?cs) = drop (i + 2) ?cs"
    using fresh by (auto simp: filter_id_conv dest: in_set_takeD in_set_dropD)
  then have rest: "filter (\<lambda>(n, c). n \<noteq> column_name \<and> n \<noteq> column_log) (cols ?annot') = ?cs"
    by simp
  show ?thesis
    using r four rest by (intro exI [of _ ?annot']) simp
qed

lemma perform_correction_columns_example:
  "perform_correction example_library [Num (1 / 100), NaN, Num (1 / 2)]
      ''Corrected Ttest: a_b'' ''Log10_Corrected Ttest: a_b'' ''Ttest: a_b''
      \<lparr>nrows = 3,
       cols = [(''query_sequence'', [Str ''ABCDEF'', Str ''BCDEF'', Str ''KLMNO'']),
               (''Ttest: a_b'', [Num (1 / 100), NaN, Num (1 / 2)]),
               (''Log10_Ttest: a_b'', map (example_log 10) [Num (1 / 100), NaN, Num (1 / 2)]),
               (''Fold a/b significance'', [NaN, NaN, NaN])]\<rparr>
   = Inr \<lparr>nrows = 3,
       cols = [(''query_sequence'', [Str ''ABCDEF'', Str ''BCDEF'', Str ''KLMNO'']),
               (''Ttest: a_b'', [Num (1 / 100), NaN, Num (1 / 2)]),
               (''Log10_Ttest: a_b'', map (example_log 10) [Num (1 / 100), NaN, Num (1 / 2)]),
               (''Corrected Ttest: a_b'', [Num (1 / 50), NaN, Num 1]),
               (''Log10_Corrected Ttest: a_b'', map (example_log 10) [Num (1 / 50), NaN, Num 1]),
               (''Fold a/b significance'', [NaN, NaN, NaN])]\<rparr>"
proof -
  let ?pvals = "[Num (1 / 100), NaN, Num (1 / 2)]"
  let ?annot = "\<lparr>nrows = 3,
       cols = [(''query_sequence'', [Str ''ABCDEF'', Str ''BCDEF'', Str ''KLMNO'']),
               (''Ttest: a_b'', ?pvals),
               (''Log10_Ttest: a_b'', map (example_log 10) ?pvals),
               (''Fold a/b significance'', [NaN, NaN, NaN])]\<rparr>"
  have h1: "corrected_pvals example_library ?pvals = Inr [Num (1 / 50), NaN, Num 1]"
    by (simp add: corrected_pvals_def np_isnan_def example_library_def example_multipletests_def
        mask_assign_def)
  have h2: "index_of ''Ttest: a_b'' (columns ?annot) = Some 1"
    by (simp add: columns_def)
  have h3: "1 + 1 < length (cols ?annot)" by simp
  have h4: "''Corrected Ttest: a_b'' \<notin> set (columns ?annot)" by (simp add: columns_def)
  have h5: "''Log10_Corrected Ttest: a_b'' \<notin> set (columns ?annot)" by (simp add: columns_def)
  have h6: "''Log10_Corrected Ttest: a_b'' \<noteq> ''Corrected Ttest: a_b''" by simp
  from perform_correction_columns [OF h1 h2 h3 h4 h5 h6]
  obtain annot' where r: "perform_correction example_library ?pvals
        ''Corrected Ttest: a_b'' ''Log10_Corrected Ttest: a_b'' ''Ttest: a_b'' ?annot = Inr annot'"
    and n: "nrows annot' = nrows ?annot"
    and c: "cols annot' = take (1 + 2) (cols ?annot)
              @ [(''Corrected Ttest: a_b'', [Num (1 / 50), NaN, Num 1]),
                 (''Log10_Corrected Ttest: a_b'',
                  map (np_log10 example_library) [Num (1 / 50), NaN, Num 1])]
              @ drop (1 + 2) (cols ?annot)"
    by blast
  have "annot' = \<lparr>nrows = 3,
       cols = [(''query_sequence'', [Str ''ABCDEF'', Str ''BCDEF'', Str ''KLMNO'']),
               (''Ttest: a_b'', ?pvals),
               (''Log10_Ttest: a_b'', map (example_log 10) ?pvals),
               (''Corrected Ttest: a_b'', [Num (1 / 50), NaN, Num 1]),
               (''Log10_Corrected Ttest: a_b'', map (example_log 10) [Num (1 / 50), NaN, Num 1]),
               (''Fold a/b significance'', [NaN, NaN, NaN])]\<rparr>"
    using n c by (cases annot') (simp add: example_library_def)
  with r show ?thesis by (simp only:)
qed

subsection \<open>All tested groups of a run\<close>

lemma pairwise_corrections_groups:
  "pairwise_corrections L pairs annot
     = correct_groups L (map (\<lambda>(a, b). ''Ttest: '' @ a @ ''_'' @ b) pairs) annot"
proof (induction pairs arbitrary: annot)
  case Nil
  show ?case by simp
next
  case (Cons pair pairs)
  obtain a b where pair: "pair = (a, b)" by (cases pair)
  show ?case
    by (simp add: pair Let_def Cons.IH split: sum.splits)
qed

lemma correct_multiple_testing_groups:
  assumes "length conditions \<ge> 2"
  shows "correct_multiple_testing L stat_pairwise conditions annot
           = correct_groups L (tested_groups stat_pairwise conditions) annot"
proof (cases stat_pairwise)
  case True
  then show ?thesis
    using assms
    by (simp add: correct_multiple_testing_def multiple_testing_def tested_groups_def
        pairwise_corrections_groups)
next
  case False
  then show ?thesis
    using assms
    by (simp add: correct_multiple_testing_def multiple_testing_def tested_groups_def Let_def
        split: sum.splits)
qed

lemma map_of_append_fresh:
  "name \<notin> set (map fst pre) \<Longrightarrow> map_of (pre @ (name, c) # rest) name = Some c"
  by (induction pre) auto

lemma index_of_append_fresh:
  "name \<notin> set pre \<Longrightarrow> index_of name (pre @ name # rest) = Some (length pre)"
  by (induction pre) auto

lemma correct_groups_cols:
  assumes "cols annot = pre @ concat (map (\<lambda>g. [(g, p g), (lname g, lp g)]) gs) @ post"
    and "distinct (map fst (cols annot)
           @ concat (map (\<lambda>g. [''Corrected '' @ g, ''Log10_Corrected '' @ g]) gs))"
    and "\<forall>g\<in>set gs. corrected_pvals L (p g) = Inr (c g)"
  shows "correct_groups L gs annot =
           Inr (annot\<lparr>cols := pre
                  @ concat (map (\<lambda>g. [(g, p g), (lname g, lp g), (''Corrected '' @ g, c g),
                                       (''Log10_Corrected '' @ g, map (np_log10 L) (c g))]) gs)
                  @ post\<rparr>)"
  using assms
proof (induction gs arbitrary: pre annot)
  case Nil
  then show ?case by simp
next
  case (Cons g gs)
  let ?pair = "\<lambda>g. [(g, p g), (lname g, lp g)]"
  let ?four = "\<lambda>g. [(g, p g), (lname g, lp g), (''Corrected '' @ g, c g),
                     (''Log10_Corrected '' @ g, map (np_log10 L) (c g))]"
  let ?new = "\<lambda>g. [''Corrected '' @ g, ''Log10_Corrected '' @ g]"
  let ?R = "concat (map ?pair gs)"
  let ?cs = "cols annot"
  let ?C = "''Corrected '' @ g" and ?LC = "''Log10_Corrected '' @ g"
  have cs: "?cs = pre @ (g, p g) # (lname g, lp g) # ?R @ post"
    using Cons.prems(1) by simp
  have d: "distinct (map fst pre @ g # lname g # map fst ?R @ map fst post
                      @ ?C # ?LC # concat (map ?new gs))"
    using Cons.prems(2) unfolding cs by simp
  have gpre: "g \<notin> set (map fst pre)" using d by simp
  have "map_of ?cs g = Some (p g)"
    unfolding cs using gpre by (rule map_of_append_fresh)
  then have get: "get_col annot g = Inr (p g)"
    by (simp add: get_col_def)
  have idx: "index_of g (columns annot) = Some (length pre)"
    using index_of_append_fresh [OF gpre] by (simp add: columns_def cs)
  have len: "length pre + 1 < length ?cs" by (simp add: cs)
  have names: "set (columns annot) = set (map fst pre) \<union> {g, lname g} \<union> set (map fst ?R) \<union> set (map fst post)"
    by (auto simp: columns_def cs)
  have fC: "?C \<notin> set (columns annot)" using d unfolding names by auto
  have fLC: "?LC \<notin> set (columns annot)" using d unfolding names by auto
  have ne: "?LC \<noteq> ?C" by simp
  have cg: "corrected_pvals L (p g) = Inr (c g)" using Cons.prems(3) by simp
  let ?annot1 = "annot\<lparr>cols := (pre @ ?four g) @ ?R @ post\<rparr>"
  have tk: "take (length pre + 2) ?cs = pre @ [(g, p g), (lname g, lp g)]"
    by (simp add: cs)
  have dr: "drop (length pre + 2) ?cs = ?R @ post"
    by (simp add: cs)
  have e: "''Log10_'' @ ''Corrected '' @ g = ?LC" by simp
  have r0: "perform_correction L (p g) ?C ?LC g annot =
      Inr (annot\<lparr>cols := take (length pre + 2) ?cs
                    @ [(?C, c g), (?LC, map (np_log10 L) (c g))]
                    @ drop (length pre + 2) ?cs\<rparr>)"
    by (rule perform_correction_result [OF cg idx len fC fLC ne])
  have res: "perform_correction L (p g) (''Corrected '' @ g) (''Log10_'' @ ''Corrected '' @ g) g annot
      = Inr ?annot1"
    unfolding e r0 tk dr by simp
  have c1: "cols ?annot1 = (pre @ ?four g) @ concat (map ?pair gs) @ post" by simp
  have "mset (map fst (cols ?annot1) @ concat (map ?new gs))
      = mset (map fst pre @ g # lname g # map fst ?R @ map fst post
                      @ ?C # ?LC # concat (map ?new gs))"
    by simp
  then have d1: "distinct (map fst (cols ?annot1) @ concat (map ?new gs))"
    using d mset_eq_imp_distinct_iff by blast
  have a3: "\<forall>g\<in>set gs. corrected_pvals L (p g) = Inr (c g)" using Cons.prems(3) by simp
  have ih: "correct_groups L gs ?annot1 =
       Inr (?annot1\<lparr>cols := (pre @ ?four g) @ concat (map ?four gs) @ post\<rparr>)"
    by (rule Cons.IH [OF c1 d1 a3])
  have fin: "?annot1\<lparr>cols := (pre @ ?four g) @ concat (map ?four gs) @ post\<rparr>
      = annot\<lparr>cols := pre @ concat (map ?four (g # gs)) @ post\<rparr>"
    by simp
  show ?case
    by (simp only: correct_groups.simps get res ih sum.case fin)
qed

lemma perform_test_cols:
  assumes "column_name \<notin> set (columns annot)" and "column_log \<notin> set (columns annot)"
    and "column_log \<noteq> column_name"
  shows "cols (perform_test L test_func cols0 cols1 column_name column_log annot)
           = cols annot
             @ [(column_name, test_func (log2_values L cols0) (log2_values L cols1)),
                (column_log,
                 map (np_log10 L) (test_func (log2_values L cols0) (log2_values L cols1)))]"
proof -
  let ?p = "test_func (log2_values L cols0) (log2_values L cols1)"
  have f1: "column_name \<notin> set (map fst (cols annot))"
    using assms(1) by (simp add: columns_def)
  have f2: "column_log \<notin> set (map fst (cols annot @ [(column_name, ?p)]))"
    using assms(2,3) by (simp add: columns_def)
  show ?thesis
    unfolding perform_test_def Let_def set_col_def
    by (simp add: upsert_fresh [OF f1] upsert_fresh [OF f2])
qed

lemma pairwise_tests_cols:
  assumes "distinct (concat (map (\<lambda>((a, _), (b, _)).
                [''Ttest: '' @ a @ ''_'' @ b, ''Log10_ttest: '' @ a @ ''_'' @ b]) pairs))"
    and "set (concat (map (\<lambda>((a, _), (b, _)).
                [''Ttest: '' @ a @ ''_'' @ b, ''Log10_ttest: '' @ a @ ''_'' @ b]) pairs))
           \<inter> set (columns annot) = {}"
  shows "cols (pairwise_tests L pairs annot)
           = cols annot
             @ concat (map (\<lambda>((a, channels0), (b, channels1)).
                 [(''Ttest: '' @ a @ ''_'' @ b,
                   ttest_ind L (log2_values L (select_columns L channels0))
                     (log2_values L (select_columns L channels1))),
                  (''Log10_ttest: '' @ a @ ''_'' @ b,
                   map (np_log10 L)
                     (ttest_ind L (log2_values L (select_columns L channels0))
                        (log2_values L (select_columns L channels1))))]) pairs)"
  using assms
proof (induction pairs arbitrary: annot)
  case Nil
  then show ?case by simp
next
  case (Cons pair pairs)
  obtain a ca b cb where pair: "pair = ((a, ca), (b, cb))"
    by (metis surj_pair)
  let ?T = "''Ttest: '' @ a @ ''_'' @ b" and ?LT = "''Log10_ttest: '' @ a @ ''_'' @ b"
  let ?names = "concat (map (\<lambda>((a, _), (b, _)).
                [''Ttest: '' @ a @ ''_'' @ b, ''Log10_ttest: '' @ a @ ''_'' @ b]) pairs)"
  let ?annot1 = "perform_test L (ttest_ind L) (select_columns L ca) (select_columns L cb) ?T ?LT annot"
  have d: "distinct (?T # ?LT # ?names)" using Cons.prems(1) by (simp add: pair)
  have i: "set (?T # ?LT # ?names) \<inter> set (columns annot) = {}"
    using Cons.prems(2) by (simp add: pair)
  have f1: "?T \<notin> set (columns annot)" and f2: "?LT \<notin> set (columns annot)"
    using i by auto
  have ne: "?LT \<noteq> ?T" by simp
  note c1 = perform_test_cols [OF f1 f2 ne, of L "ttest_ind L" "select_columns L ca" "select_columns L cb"]
  have cols1: "columns ?annot1 = columns annot @ [?T, ?LT]"
    unfolding columns_def c1 by simp
  have d': "distinct ?names" using d by simp
  have i': "set ?names \<inter> set (columns ?annot1) = {}"
    using d i unfolding cols1 by auto
  have step: "pairwise_tests L (pair # pairs) annot = pairwise_tests L pairs ?annot1"
    by (simp only: pair pairwise_tests.simps)
  show ?case
    unfolding step Cons.IH [OF d' i'] c1 by (simp add: pair)
qed

text \<open>
  C6, as amended. \<open>correct_multiple_testing\<close> runs on a table in which the pairs of the
  tested groups (p-value column, then its logarithm) stand side by side in the order of
  the groups, as \<open>condition_statistics\<close> writes them (\<open>pairwise_tests_cols\<close>), between any
  columns \<open>pre\<close> and \<open>post\<close>. When the column names of the table and the two
  \<open>Corrected\<close> names of every group are pairwise distinct, and the correction procedure
  returns for every group, the method inserts for every group exactly two columns, the
  corrected p-values and their logarithm, directly after the group's pair; the columns
  \<open>pre\<close> and \<open>post\<close> and the original pairs keep their content and their order.
\<close>

theorem correct_multiple_testing_inserts_after_pairs:
  assumes "length conditions \<ge> 2"
    and "groups = tested_groups stat_pairwise conditions"
    and "cols annot = pre @ concat (map (\<lambda>g. [(g, p g), (lname g, lp g)]) groups) @ post"
    and "distinct (columns annot
           @ concat (map (\<lambda>g. [''Corrected '' @ g, ''Log10_Corrected '' @ g]) groups))"
    and "\<forall>g\<in>set groups. corrected_pvals L (p g) = Inr (c g)"
  shows "correct_multiple_testing L stat_pairwise conditions annot =
           Inr (annot\<lparr>cols := pre
                  @ concat (map (\<lambda>g. [(g, p g), (lname g, lp g), (''Corrected '' @ g, c g),
                                       (''Log10_Corrected '' @ g, map (np_log10 L) (c g))]) groups)
                  @ post\<rparr>)"
proof -
  have d: "distinct (map fst (cols annot)
           @ concat (map (\<lambda>g. [''Corrected '' @ g, ''Log10_Corrected '' @ g]) groups))"
    using assms(4) by (simp only: columns_def)
  have "correct_multiple_testing L stat_pairwise conditions annot = correct_groups L groups annot"
    unfolding assms(2) using assms(1) by (rule correct_multiple_testing_groups)
  also have "\<dots> = Inr (annot\<lparr>cols := pre
                  @ concat (map (\<lambda>g. [(g, p g), (lname g, lp g), (''Corrected '' @ g, c g),
                                       (''Log10_Corrected '' @ g, map (np_log10 L) (c g))]) groups)
                  @ post\<rparr>)"
    by (rule correct_groups_cols [OF assms(3) d assms(5)])
  finally show ?thesis .
qed

theorem correct_multiple_testing_inserts_after_pairs_witness:
  "\<exists>annot'. correct_multiple_testing example_library True
        [(''a'', [''126'']), (''b'', [''127'']), (''c'', [''128''])]
        \<lparr>nrows = 2,
         cols = [(''query_sequence'', [Str ''ABCDEF'', Str ''BCDEF'']),
                 (''Ttest: a_b'', [Num (1 / 100), NaN]), (''Log10_ttest: a_b'', [Num (- 2), NaN]),
                 (''Ttest: a_c'', [Num (1 / 100), NaN]), (''Log10_ttest: a_c'', [Num (- 2), NaN]),
                 (''Ttest: b_c'', [Num (1 / 100), NaN]), (''Log10_ttest: b_c'', [Num (- 2), NaN]),
                 (''Fold a/b significance'', [NaN, NaN])]\<rparr> = Inr annot'
     \<and> columns annot' =
         [''query_sequence'',
          ''Ttest: a_b'', ''Log10_ttest: a_b'', ''Corrected Ttest: a_b'', ''Log10_Corrected Ttest: a_b'',
          ''Ttest: a_c'', ''Log10_ttest: a_c'', ''Corrected Ttest: a_c'', ''Log10_Corrected Ttest: a_c'',
          ''Ttest: b_c'', ''Log10_ttest: b_c'', ''Corrected Ttest: b_c'', ''Log10_Corrected Ttest: b_c'',
          ''Fold a/b significance'']"
proof -
  let ?conditions = "[(''a'', [''126'']), (''b'', [''127'']), (''c'', [''128''])]"
  let ?groups = "[''Ttest: a_b'', ''Ttest: a_c'', ''Ttest: b_c'']"
  let ?pre = "[(''query_sequence'', [Str ''ABCDEF'', Str ''BCDEF''])]"
  let ?post = "[(''Fold a/b significance'', [NaN, NaN])]"
  let ?p = "\<lambda>g::string. [Num (1 / 100), NaN]"
  let ?lname = "\<lambda>g::string. ''Log10_t'' @ drop 1 g"
  let ?lp = "\<lambda>g::string. [Num (- 2), NaN]"
  let ?c = "\<lambda>g::string. [Num (1 / 100), NaN]"
  let ?annot = "\<lparr>nrows = 2,
         cols = [(''query_sequence'', [Str ''ABCDEF'', Str ''BCDEF'']),
                 (''Ttest: a_b'', [Num (1 / 100), NaN]), (''Log10_ttest: a_b'', [Num (- 2), NaN]),
                 (''Ttest: a_c'', [Num (1 / 100), NaN]), (''Log10_ttest: a_c'', [Num (- 2), NaN]),
                 (''Ttest: b_c'', [Num (1 / 100), NaN]), (''Log10_ttest: b_c'', [Num (- 2), NaN]),
                 (''Fold a/b significance'', [NaN, NaN])]\<rparr>"
  have h1: "length ?conditions \<ge> 2" by simp
  have h2: "?groups = tested_groups True ?conditions" by (simp add: tested_groups_def)
  have h3: "cols ?annot = ?pre @ concat (map (\<lambda>g. [(g, ?p g), (?lname g, ?lp g)]) ?groups) @ ?post"
    by simp
  have h4: "distinct (columns ?annot
           @ concat (map (\<lambda>g. [''Corrected '' @ g, ''Log10_Corrected '' @ g]) ?groups))"
    by (simp add: columns_def)
  have h5: "\<forall>g\<in>set ?groups. corrected_pvals example_library (?p g) = Inr (?c g)"
    by (simp add: corrected_pvals_def np_isnan_def example_library_def example_multipletests_def
        mask_assign_def)
  note r = correct_multiple_testing_inserts_after_pairs
    [where p = ?p and lname = ?lname and lp = ?lp and c = ?c and pre = ?pre and post = ?post,
      OF h1 h2 h3 h4 h5]
  show ?thesis
    unfolding r by (simp add: columns_def)
qed

text \<open>
  The claim as stated fails: in pairwise mode the conditions \<open>a\<close>, \<open>a_b\<close>, \<open>b_c\<close>, \<open>c\<close>
  give the groups \<open>(a, b_c)\<close> and \<open>(a_b, c)\<close> the same column name \<open>Ttest: a_b_c\<close>. The
  first of them is corrected; for the second \<open>DataFrame.insert\<close> finds
  \<open>Corrected Ttest: a_b_c\<close> in the table and raises \<open>ValueError\<close>: nothing is inserted
  for this group and the run stops.
\<close>

theorem correct_multiple_testing_name_collision_counterexample:
  "''Ttest: '' @ ''a'' @ ''_'' @ ''b_c'' = ''Ttest: '' @ ''a_b'' @ ''_'' @ ''c''
   \<and> significance_then_correction example_library True
      [(''a'', [''126'']), (''a_b'', [''127'']), (''b_c'', [''128'']), (''c'', [''129''])]
      \<lparr>nrows = 1, cols = []\<rparr>
   = Inl ValueError"
  by (simp add: significance_then_correction_def condition_statistics_def perform_test_def
      set_col_def correct_multiple_testing_def multiple_testing_def get_col_def
      perform_correction_def corrected_pvals_def np_isnan_def example_library_def
      example_multipletests_def mask_assign_def get_loc_def columns_def insert_col_def Let_def)

section \<open>Condition statistics: the fold-change columns\<close>

lemma columns_fold_columns:
  assumes "distinct (fold_column_names pairs)"
    and "set (fold_column_names pairs) \<inter> set (columns annot) = {}"
  shows "columns (fold_columns L pairs annot) = columns annot @ fold_column_names pairs"
  using assms
proof (induction pairs arbitrary: annot)
  case Nil
  then show ?case by (simp add: fold_column_names_def)
next
  case (Cons pair pairs)
  obtain a ca b cb where pair: "pair = ((a, ca), (b, cb))"
    by (metis surj_pair)
  let ?fold = "map2 (np_divide L) (mean_axis1 L (select_columns L ca)) (mean_axis1 L (select_columns L cb))"
  let ?annot1 = "set_col (fold_name a b) ?fold annot"
  let ?annot2 = "set_col (log2_fold_name a b) (map (np_log2 L) ?fold) ?annot1"
  have names: "fold_column_names (pair # pairs)
                 = fold_name a b # log2_fold_name a b # fold_column_names pairs"
    by (simp add: fold_column_names_def pair)
  have f1: "fold_name a b \<notin> set (columns annot)"
    using Cons.prems(2) unfolding names by simp
  have c1: "columns ?annot1 = columns annot @ [fold_name a b]"
    using f1 by (rule columns_set_col_fresh)
  have ne: "log2_fold_name a b \<noteq> fold_name a b"
    by (simp add: log2_fold_name_def fold_name_def)
  have f2: "log2_fold_name a b \<notin> set (columns ?annot1)"
    using Cons.prems(2) ne unfolding names c1 by simp
  have c2: "columns ?annot2 = columns annot @ [fold_name a b, log2_fold_name a b]"
    using columns_set_col_fresh [OF f2] by (simp only: c1) simp
  have d: "distinct (fold_column_names pairs)"
    using Cons.prems(1) unfolding names by simp
  have i: "set (fold_column_names pairs) \<inter> set (columns ?annot2) = {}"
    using Cons.prems unfolding names c2 by auto
  have step: "fold_columns L (pair # pairs) annot = fold_columns L pairs ?annot2"
    by (simp add: pair calc_stats_def generate_condition_columns_def Let_def)
  show ?case
    unfolding step Cons.IH [OF d i] c2 names by simp
qed

lemma length_filter_neq_upt: "i < n \<Longrightarrow> length (filter (\<lambda>j. j \<noteq> i) [0..<n]) = n - 1"
proof -
  assume "i < n"
  have "{ia. ia < n \<and> [0..<n] ! ia \<noteq> i} = {j. j < n \<and> j \<noteq> i}"
    by auto
  then have "length (filter (\<lambda>j. j \<noteq> i) [0..<n]) = card {j. j < n \<and> j \<noteq> i}"
    by (simp add: length_filter_conv_card)
  also have "{j. j < n \<and> j \<noteq> i} = {..<n} - {i}" by auto
  also have "card \<dots> = n - 1" using \<open>i < n\<close> by simp
  finally show ?thesis .
qed

lemma length_permutations2: "length (permutations2 xs) = length xs * (length xs - 1)"
proof -
  have "length (permutations2 xs)
      = sum_list (map (\<lambda>i. length (filter (\<lambda>j. j \<noteq> i) [0..<length xs])) [0..<length xs])"
    by (simp add: permutations2_def length_concat comp_def)
  also have "\<dots> = sum_list (map (\<lambda>i. length xs - 1) [0..<length xs])"
    by (intro arg_cong [where f = sum_list] map_cong refl) (simp add: length_filter_neq_upt)
  also have "\<dots> = length xs * (length xs - 1)"
    by (simp add: sum_list_triv)
  finally show ?thesis .
qed

lemma fold_change_columns_names:
  "filter (\<lambda>n. take 13 n = ''Fold_change: '') (fold_column_names pairs)
     = map (\<lambda>((a, _), (b, _)). fold_name a b) pairs"
  by (induction pairs) (auto simp: fold_column_names_def fold_name_def log2_fold_name_def)

lemma permutations2_product:
  "permutations2 xs =
     map (\<lambda>(i, j). (xs ! i, xs ! j))
       (filter (\<lambda>(i, j). j \<noteq> i) (List.product [0..<length xs] [0..<length xs]))"
proof -
  have "\<And>i ys. map (\<lambda>(i, j). (xs ! i, xs ! j)) (filter (\<lambda>(i, j). j \<noteq> i) (map (Pair i) ys))
          = map (\<lambda>j. (xs ! i, xs ! j)) (filter (\<lambda>j. j \<noteq> i) ys)"
    by (simp add: filter_map comp_def)
  then show ?thesis
    by (simp add: permutations2_def product_concat_map filter_concat map_concat comp_def)
qed

lemma pair_name_inj:
  assumes "CHR ''/'' \<notin> set a" and "CHR ''/'' \<notin> set c" and "a @ ''/'' @ b = c @ ''/'' @ d"
  shows "a = c \<and> b = d"
proof -
  have "\<And>x. x \<in> set a \<Longrightarrow> x \<noteq> CHR ''/''" using assms(1) by blast
  then have "takeWhile (\<lambda>x. x \<noteq> CHR ''/'') (a @ ''/'' @ b) = a"
    by simp
  moreover have "\<And>x. x \<in> set c \<Longrightarrow> x \<noteq> CHR ''/''" using assms(2) by blast
  then have "takeWhile (\<lambda>x. x \<noteq> CHR ''/'') (c @ ''/'' @ d) = c"
    by simp
  ultimately have "a = c" using assms(3) by simp
  then show ?thesis using assms(3) by simp
qed

lemma distinct_interleave:
  assumes "distinct (map F ps)" and "distinct (map G ps)" and "\<And>p q. F p \<noteq> G q"
  shows "distinct (concat (map (\<lambda>p. [F p, G p]) ps))"
proof -
  have "\<And>p q. G q \<noteq> F p" using assms(3) by metis
  then show ?thesis using assms by (induction ps) auto
qed

lemma distinct_pair_names:
  assumes "distinct (map fst conditions)"
    and "\<forall>c\<in>set (map fst conditions). CHR ''/'' \<notin> set c"
  shows "distinct (map (\<lambda>((a, _), (b, _)). a @ ''/'' @ b) (permutations2 conditions))"
proof -
  let ?n = "length conditions"
  let ?idx = "filter (\<lambda>(i, j). j \<noteq> i) (List.product [0..<?n] [0..<?n])"
  let ?name = "\<lambda>(i, j). fst (conditions ! i) @ ''/'' @ fst (conditions ! j)"
  have e: "map (\<lambda>((a, _), (b, _)). a @ ''/'' @ b) (permutations2 conditions) = map ?name ?idx"
    by (simp add: permutations2_product comp_def case_prod_beta)
  have d: "distinct ?idx" by (simp add: distinct_product)
  have "inj_on ?name (set ?idx)"
  proof (rule inj_onI)
    fix p q assume p: "p \<in> set ?idx" and q: "q \<in> set ?idx" and eq: "?name p = ?name q"
    obtain i j where pp: "p = (i, j)" by (cases p)
    obtain k l where qq: "q = (k, l)" by (cases q)
    have b: "i < ?n" "j < ?n" "k < ?n" "l < ?n" using p q pp qq by auto
    have s: "\<And>m. m < ?n \<Longrightarrow> CHR ''/'' \<notin> set (fst (conditions ! m))"
      using assms(2) by simp
    have "fst (conditions ! i) = fst (conditions ! k) \<and> fst (conditions ! j) = fst (conditions ! l)"
      using pair_name_inj [OF s [OF b(1)] s [OF b(3)]] eq pp qq by simp
    then have "map fst conditions ! i = map fst conditions ! k"
      and "map fst conditions ! j = map fst conditions ! l"
      using b by simp_all
    then have "i = k" "j = l"
      using assms(1) b nth_eq_iff_index_eq [of "map fst conditions" i k]
        nth_eq_iff_index_eq [of "map fst conditions" j l]
      by simp_all
    then show "p = q" using pp qq by simp
  qed
  then show ?thesis unfolding e using d by (simp add: distinct_map)
qed

lemma distinct_fold_column_names:
  assumes "distinct (map fst conditions)"
    and "\<forall>c\<in>set (map fst conditions). CHR ''/'' \<notin> set c"
  shows "distinct (fold_column_names (permutations2 conditions))"
proof -
  let ?ps = "permutations2 conditions"
  let ?F = "\<lambda>((a, _), (b, _)). fold_name a b" and ?G = "\<lambda>((a, _), (b, _)). log2_fold_name a b"
  note d = distinct_pair_names [OF assms]
  have F: "map ?F ?ps = map ((@) ''Fold_change: '') (map (\<lambda>((a, _), (b, _)). a @ ''/'' @ b) ?ps)"
    by (simp add: fold_name_def case_prod_beta)
  have G: "map ?G ?ps = map ((@) ''Log2_fold_change: '') (map (\<lambda>((a, _), (b, _)). a @ ''/'' @ b) ?ps)"
    by (simp add: log2_fold_name_def case_prod_beta)
  have dF: "distinct (map ?F ?ps)" unfolding F using d by (simp only: distinct_map) (simp add: inj_on_def)
  have dG: "distinct (map ?G ?ps)" unfolding G using d by (simp only: distinct_map) (simp add: inj_on_def)
  have ne: "\<And>p q. ?F p \<noteq> ?G q"
    by (simp add: fold_name_def log2_fold_name_def case_prod_beta)
  have "fold_column_names ?ps = concat (map (\<lambda>p. [?F p, ?G p]) ?ps)"
    by (simp add: fold_column_names_def split_def)
  then show ?thesis using distinct_interleave [of ?F ?ps ?G, OF dF dG ne] by simp
qed

text \<open>
  C8, as amended. Let \<open>k\<close> be the number of conditions (the default dictionary counts as
  one). The second loop runs over the \<open>k \<cdot> (k - 1)\<close> ordered pairs. When the names it
  writes are pairwise distinct (\<open>distinct_fold_column_names\<close>: they are when no condition
  name contains a slash) and none is a column of the table at that point, it appends
  exactly one \<open>Fold_change\<close> column per ordered pair, each followed by its \<open>Log2\<close>
  sibling; for \<open>k = 1\<close> it appends none.
\<close>

theorem general_conditions_fold_columns:
  assumes "conditions = (if conditions0 = [] then default_conditions else conditions0)"
    and "distinct (fold_column_names (permutations2 conditions))"
    and "set (fold_column_names (permutations2 conditions))
           \<inter> set (columns (condition_columns L conditions annot)) = {}"
  shows "fst (general_conditions L conditions0 annot) = conditions
       \<and> columns (snd (general_conditions L conditions0 annot))
           = columns (condition_columns L conditions annot)
             @ fold_column_names (permutations2 conditions)
       \<and> fold_change_columns (snd (general_conditions L conditions0 annot))
           = fold_change_columns (condition_columns L conditions annot)
             @ map (\<lambda>((a, _), (b, _)). fold_name a b) (permutations2 conditions)
       \<and> length (permutations2 conditions) = length conditions * (length conditions - 1)"
proof -
  let ?annot1 = "condition_columns L conditions annot"
  let ?pairs = "permutations2 conditions"
  have g: "general_conditions L conditions0 annot
             = (conditions, if length conditions > 1 then fold_columns L ?pairs ?annot1 else ?annot1)"
    unfolding general_conditions_def assms(1) [symmetric] by (simp add: Let_def)
  have c: "columns (snd (general_conditions L conditions0 annot))
             = columns ?annot1 @ fold_column_names ?pairs"
  proof (cases "length conditions > 1")
    case True
    then show ?thesis
      unfolding g using columns_fold_columns [OF assms(2,3)] by simp
  next
    case False
    then have "length ?pairs = 0" by (simp add: length_permutations2)
    then have "?pairs = []" by simp
    then show ?thesis unfolding g using False by (simp add: fold_column_names_def)
  qed
  have f: "fold_change_columns (snd (general_conditions L conditions0 annot))
             = fold_change_columns ?annot1 @ map (\<lambda>((a, _), (b, _)). fold_name a b) ?pairs"
    unfolding fold_change_columns_def c by (simp only: filter_append fold_change_columns_names)
  show ?thesis using g c f by (simp add: length_permutations2)
qed

theorem general_conditions_fold_columns_witness:
  "columns (snd (general_conditions example_library
      [(''treated'', [''126'', ''127'']), (''control'', [''128''])]
      \<lparr>nrows = 1, cols = [(''query_sequence'', [Str ''ABCDEFGH''])]\<rparr>))
   = [''query_sequence'', ''treated_mean'', ''treated_deviation'', ''treated_CV'',
      ''control_mean'', ''control_deviation'', ''control_CV'',
      ''Fold_change: treated/control'', ''Log2_fold_change: treated/control'',
      ''Fold_change: control/treated'', ''Log2_fold_change: control/treated'']"
proof -
  let ?conditions = "[(''treated'', [''126'', ''127'']), (''control'', [''128''])]"
  let ?annot = "\<lparr>nrows = 1, cols = [(''query_sequence'', [Str ''ABCDEFGH''])]\<rparr>"
  have cc: "columns (condition_columns example_library ?conditions ?annot)
     = [''query_sequence'', ''treated_mean'', ''treated_deviation'', ''treated_CV'',
        ''control_mean'', ''control_deviation'', ''control_CV'']"
    by (simp add: calc_stats_def set_col_def columns_def Let_def)
  have h1: "?conditions = (if ?conditions = [] then default_conditions else ?conditions)"
    by simp
  have h2: "distinct (fold_column_names (permutations2 ?conditions))"
    by (simp add: permutations2_two fold_column_names_def fold_name_def log2_fold_name_def)
  have h3: "set (fold_column_names (permutations2 ?conditions))
           \<inter> set (columns (condition_columns example_library ?conditions ?annot)) = {}"
    unfolding cc
    by (simp add: permutations2_two fold_column_names_def fold_name_def log2_fold_name_def)
  from general_conditions_fold_columns [OF h1 h2 h3]
  have "columns (snd (general_conditions example_library ?conditions ?annot))
           = columns (condition_columns example_library ?conditions ?annot)
             @ fold_column_names (permutations2 ?conditions)"
    by (rule conjunct1 [OF conjunct2])
  then show ?thesis
    unfolding cc
    by (simp add: permutations2_two fold_column_names_def fold_name_def log2_fold_name_def)
qed

text \<open>
  The claim as stated fails: for the two conditions \<open>ctrl\<close> and \<open>ctrl/ctrl\<close> both ordered
  pairs give the name \<open>Fold_change: ctrl/ctrl/ctrl\<close>, the second assignment replaces the
  first, and one fold-change column is written instead of two.
\<close>

theorem general_conditions_name_collision_counterexample:
  "fold_name ''ctrl'' ''ctrl/ctrl'' = fold_name ''ctrl/ctrl'' ''ctrl''
   \<and> length [(''ctrl'', [''126'']), (''ctrl/ctrl'', [''127''])]
       * (length [(''ctrl'', [''126'']), (''ctrl/ctrl'', [''127''])] - 1) = 2
   \<and> fold_change_columns (snd (general_conditions example_library
        [(''ctrl'', [''126'']), (''ctrl/ctrl'', [''127''])] \<lparr>nrows = 1, cols = []\<rparr>))
     = [''Fold_change: ctrl/ctrl/ctrl'']"
  by (simp add: general_conditions_def permutations2_two fold_change_columns_def columns_def
      set_col_def calc_stats_def generate_condition_columns_def Let_def fold_name_def log2_fold_name_def)

end
